theory Spec2Isabelle
  imports Complex_Main
begin

section \<open>The NumPy fully connected network of 01\_FCnn\_PTvsNP\<close>

text \<open>
  A shallow embedding of the class \<open>FullyConnectedNN_np\<close>. float64 values are idealised
  as \<^typ>\<open>real\<close>, so \<open>np.tanh\<close> is \<^const>\<open>tanh\<close> and \<open>np.cosh\<close> is \<^const>\<open>cosh\<close>.
  Every exception NumPy or Python raises is a value of type \<open>error\<close>. The generator
  behind \<open>np.random\<close> is an explicit stream of draws handed to the operations, and what
  NumPy answers when \<open>__init__\<close> asks for a new weight matrix is a parameter too; the
  operations on arrays that exist are taken to have the memory they need. The
  arguments have the dimensions the notebook gives them: an input, an activation and a
  target row are one-dimensional arrays, the training data and the weights
  two-dimensional ones.
\<close>

subsection \<open>Arrays\<close>

datatype error = ValueError | IndexError | MemoryError

text \<open>A one-dimensional array of shape \<open>(n,)\<close> is the list of its \<open>n\<close> entries.\<close>

type_synonym vec = "real list"

text \<open>
  A two-dimensional array keeps its column count beside its rows, as an \<open>ndarray\<close> keeps
  its shape beside its buffer: an array of shape \<open>(0, c)\<close> has no row and still \<open>c\<close>
  columns. The row count is the number of rows held. A NumPy array is rectangular, which
  \<open>wf_mat\<close> below says of the rows.
\<close>

record mat =
  ncols :: nat
  rows :: "vec list"

definition nrows :: "mat \<Rightarrow> nat" where
  "nrows M = length (rows M)"

definition shape :: "mat \<Rightarrow> nat \<times> nat" where
  "shape M = (nrows M, ncols M)"

text \<open>The buffer agrees with the shape: every row holds \<open>ncols\<close> entries.\<close>

definition wf_mat :: "mat \<Rightarrow> bool" where
  "wf_mat M = list_all (\<lambda>r. length r = ncols M) (rows M)"

text \<open>An exception ends the computation: the rest runs on a returned value only.\<close>

definition err_bind :: "error + 'a \<Rightarrow> ('a \<Rightarrow> error + 'b) \<Rightarrow> error + 'b" where
  "err_bind m f = (case m of Inl e \<Rightarrow> Inl e | Inr v \<Rightarrow> f v)"

text \<open>\<open>xs[i]\<close> for an index \<open>i \<ge> 0\<close>, and \<open>xs[-1]\<close>.\<close>

definition nth_err :: "'a list \<Rightarrow> nat \<Rightarrow> error + 'a" where
  "nth_err xs i = (if i < length xs then Inr (xs ! i) else Inl IndexError)"

definition last_err :: "'a list \<Rightarrow> error + 'a" where
  "last_err xs = (if xs = [] then Inl IndexError else Inr (last xs))"

text \<open>\<open>xs[i]\<close> for a Python integer \<open>i\<close>: a negative index counts from the end.\<close>

definition nth_int :: "'a list \<Rightarrow> int \<Rightarrow> error + 'a" where
  "nth_int xs i =
     (if 0 \<le> i \<and> i < int (length xs) then Inr (xs ! nat i)
      else if i < 0 \<and> - i \<le> int (length xs) then Inr (xs ! nat (int (length xs) + i))
      else Inl IndexError)"

subsection \<open>The random generator\<close>

text \<open>
  Before it draws, \<open>np.random.rand\<close> has NumPy make the array. What NumPy answers for a
  shape \<open>(d0, d1)\<close> of non-negative entries depends on the platform and the machine, so it
  is a parameter: \<open>None\<close> when the array is made, \<open>ValueError\<close> when a dimension or the
  size is beyond NumPy's limits, \<open>MemoryError\<close> when the machine has not the memory.
\<close>

type_synonym allocator = "nat \<Rightarrow> nat \<Rightarrow> error option"

text \<open>
  \<open>np.random.rand(d0, d1)\<close> raises \<open>ValueError\<close> on a negative dimension and whatever the
  allocation raises; else it fills an array of shape \<open>(d0, d1)\<close> in row-major order with
  the next \<open>d0 * d1\<close> draws of the generator, each in the half-open interval \<open>[0, 1)\<close>.
  The stream \<open>g\<close> lists the draws; \<open>p\<close> counts those already consumed.
\<close>

definition rand :: "allocator \<Rightarrow> (nat \<Rightarrow> real) \<Rightarrow> nat \<Rightarrow> int \<Rightarrow> int \<Rightarrow> error + (mat \<times> nat)" where
  "rand A g p d0 d1 =
     (if d0 < 0 \<or> d1 < 0 then Inl ValueError
      else case A (nat d0) (nat d1) of
             Some e \<Rightarrow> Inl e
           | None \<Rightarrow>
               Inr (\<lparr>ncols = nat d1,
                      rows = map (\<lambda>i. map (\<lambda>j. g (p + i * nat d1 + j)) [0..<nat d1]) [0..<nat d0]\<rparr>,
                    p + nat d0 * nat d1))"

text \<open>The draws of a generator that respects the range of \<open>np.random.rand\<close>.\<close>

definition unit_draws :: "(nat \<Rightarrow> real) \<Rightarrow> bool" where
  "unit_draws g = (\<forall>k. 0 \<le> g k \<and> g k < 1)"

text \<open>\<open>np.random.randint(n)\<close>: an index below \<open>n\<close>, \<open>ValueError\<close> when \<open>n \<le> 0\<close>. The raw
  draw \<open>r\<close> is reduced into the range asked for.\<close>

definition randint :: "nat \<Rightarrow> nat \<Rightarrow> error + nat" where
  "randint r n = (if n = 0 then Inl ValueError else Inr (r mod n))"

subsection \<open>Elementwise operations\<close>

text \<open>\<open>2 * w - 1\<close>, \<open>learning_rate * w\<close>: a scalar against every entry.\<close>

definition map_mat :: "(real \<Rightarrow> real) \<Rightarrow> mat \<Rightarrow> mat" where
  "map_mat f M = \<lparr>ncols = ncols M, rows = map (map f) (rows M)\<rparr>"

text \<open>
  A binary operation on two one-dimensional arrays under NumPy broadcasting: equal
  lengths combine entry by entry, a length-one operand is stretched over the other, any
  other pair of lengths raises \<open>ValueError\<close>.
\<close>

definition bcast :: "(real \<Rightarrow> real \<Rightarrow> real) \<Rightarrow> vec \<Rightarrow> vec \<Rightarrow> error + vec" where
  "bcast f a b =
     (if length a = length b then Inr (map (\<lambda>(x, y). f x y) (zip a b))
      else if length a = 1 then Inr (map (f (hd a)) b)
      else if length b = 1 then Inr (map (\<lambda>x. f x (hd b)) a)
      else Inl ValueError)"

text \<open>\<open>np.dot(v, M)\<close> for \<open>v\<close> of shape \<open>(n,)\<close> and \<open>M\<close> of shape \<open>(r, c)\<close>: shape \<open>(c,)\<close>,
  \<open>ValueError\<close> unless \<open>n = r\<close>.\<close>

definition dot :: "vec \<Rightarrow> mat \<Rightarrow> error + vec" where
  "dot v M =
     (if length v = nrows M
      then Inr (map (\<lambda>j. sum_list (map (\<lambda>(a, r). a * r ! j) (zip v (rows M)))) [0..<ncols M])
      else Inl ValueError)"

text \<open>\<open>M[1:]\<close> drops the first row; \<open>M.T\<close> swaps the axes.\<close>

definition drop_first :: "mat \<Rightarrow> mat" where
  "drop_first M = \<lparr>ncols = ncols M, rows = drop 1 (rows M)\<rparr>"

definition transpose_mat :: "mat \<Rightarrow> mat" where
  "transpose_mat M = \<lparr>ncols = nrows M, rows = map (\<lambda>j. map (\<lambda>r. r ! j) (rows M)) [0..<ncols M]\<rparr>"

text \<open>
  \<open>v.reshape(1, k)\<close> of a one-dimensional array: one row holding the entries of \<open>v\<close>. A
  negative \<open>k\<close> asks NumPy to infer the length; a \<open>k \<ge> 0\<close> other than the size of \<open>v\<close>
  raises \<open>ValueError\<close>.
\<close>

definition reshape_row :: "vec \<Rightarrow> int \<Rightarrow> error + vec" where
  "reshape_row v k =
     (if k < 0 then Inr v
      else if int (length v) = k then Inr v
      else Inl ValueError)"

text \<open>\<open>layer.T.dot(delta)\<close> for \<open>layer\<close> of shape \<open>(1, n)\<close> and \<open>delta\<close> of shape \<open>(1, m)\<close>:
  the \<open>n\<close> by \<open>m\<close> outer product.\<close>

definition outer :: "vec \<Rightarrow> vec \<Rightarrow> mat" where
  "outer layer delta = \<lparr>ncols = length delta, rows = map (\<lambda>a. map (\<lambda>d. a * d) delta) layer\<rparr>"

text \<open>
  \<open>W += U\<close> in place: \<open>U\<close> is broadcast to the shape of \<open>W\<close> (an axis of length one is
  stretched), \<open>ValueError\<close> when it does not fit. The buffer of \<open>W\<close> is rewritten.
\<close>

definition stretch :: "nat \<Rightarrow> 'a list \<Rightarrow> 'a list" where
  "stretch n xs = (if length xs = 1 \<and> n \<noteq> 1 then replicate n (hd xs) else xs)"

definition iadd :: "mat \<Rightarrow> mat \<Rightarrow> error + mat" where
  "iadd W U =
     (if (nrows U = nrows W \<or> nrows U = 1) \<and> (ncols U = ncols W \<or> ncols U = 1)
      then Inr \<lparr>ncols = ncols W,
                rows = map (\<lambda>(w, u). map (\<lambda>(x, y). x + y) (zip w (stretch (ncols W) u)))
                           (zip (rows W) (stretch (nrows W) (rows U)))\<rparr>
      else Inl ValueError)"

subsection \<open>The network\<close>

definition tanh_derivative :: "real \<Rightarrow> real" where
  "tanh_derivative x = 1 / cosh x ^ 2"

text \<open>The fields of the object that the methods read: \<open>self.arch\<close>, \<open>self.layers\<close> and
  \<open>self.weights\<close>.\<close>

record net =
  arch :: "int list"
  layers :: int
  weights :: "mat list"

text \<open>
  \<open>__init__\<close>: one matrix \<open>2 * rand(arch[layer] + 1, arch[layer + 1]) - 1\<close> for each
  \<open>layer\<close> in \<open>range(len(arch) - 1)\<close>. The loop walks the consecutive pairs of \<open>arch\<close>.
\<close>

fun init_weights :: "allocator \<Rightarrow> (nat \<Rightarrow> real) \<Rightarrow> nat \<Rightarrow> int list \<Rightarrow> error + mat list" where
  "init_weights A g p (a # b # as) =
     (case rand A g p (a + 1) b of
        Inl e \<Rightarrow> Inl e
      | Inr (w, p') \<Rightarrow>
          (case init_weights A g p' (b # as) of
             Inl e \<Rightarrow> Inl e
           | Inr ws \<Rightarrow> Inr (map_mat (\<lambda>x. 2 * x - 1) w # ws)))"
| "init_weights A g p as = Inr []"

definition construct :: "allocator \<Rightarrow> (nat \<Rightarrow> real) \<Rightarrow> int list \<Rightarrow> error + net" where
  "construct A g net_arch =
     (case init_weights A g 0 net_arch of
        Inl e \<Rightarrow> Inl e
      | Inr ws \<Rightarrow> Inr \<lparr>arch = net_arch, layers = int (length net_arch), weights = ws\<rparr>)"

text \<open>
  A 64-bit machine with room for \<open>2 ^ 27\<close> float64 entries. NumPy refuses with
  \<open>ValueError\<close> a shape whose byte count, the zero dimensions left out, does not fit a
  signed 64-bit integer; the machine fails with \<open>MemoryError\<close> beyond its room.
\<close>

definition machine_alloc :: allocator where
  "machine_alloc d0 d1 =
     (if 2 ^ 63 \<le> 8 * max 1 d0 * max 1 d1 then Some ValueError
      else if 2 ^ 27 < d0 * d1 then Some MemoryError
      else None)"

text \<open>A generator whose every draw is \<open>0\<close>, the least value \<open>np.random.rand\<close> returns.\<close>

definition zero_draws :: "nat \<Rightarrow> real" where
  "zero_draws k = 0"

subsection \<open>Forward propagation\<close>

text \<open>
  The loop of \<open>_forward_prop\<close> over \<open>i\<close> in \<open>range(len(self.weights) - 1)\<close>: \<open>k\<close> counts the
  iterations left. It appends to the list \<open>y\<close>; when an exception ends it, the list keeps
  what was appended so far.
\<close>

fun forward_loop :: "mat list \<Rightarrow> nat \<Rightarrow> nat \<Rightarrow> vec list \<Rightarrow> vec list \<times> error option" where
  "forward_loop W i 0 y = (y, None)"
| "forward_loop W i (Suc k) y =
     (case err_bind (nth_err y i) (\<lambda>yi. err_bind (nth_err W i) (\<lambda>w. dot yi w)) of
        Inl e \<Rightarrow> (y, Some e)
      | Inr activation \<Rightarrow> forward_loop W (Suc i) k (y @ [1 # map tanh activation]))"

text \<open>The whole body of \<open>_forward_prop\<close> on the contents of the list \<open>y = x\<close>: the hidden
  layers, then the last layer without a bias entry.\<close>

definition forward_list :: "net \<Rightarrow> vec list \<Rightarrow> vec list \<times> error option" where
  "forward_list n x =
     (case forward_loop (weights n) 0 (length (weights n) - 1) x of
        (y, Some e) \<Rightarrow> (y, Some e)
      | (y, None) \<Rightarrow>
          (case err_bind (last_err y) (\<lambda>yl. err_bind (last_err (weights n)) (\<lambda>wl. dot yl wl)) of
             Inl e \<Rightarrow> (y, Some e)
           | Inr activation \<Rightarrow> (y @ [map tanh activation], None)))"

text \<open>
  Python lists are objects: \<open>y = x\<close> makes \<open>y\<close> another name of the caller's list, and
  \<open>y.append\<close> writes to it. The heap maps the reference of a list to its contents;
  \<open>_forward_prop\<close> takes the reference \<open>x\<close> and returns a reference.
\<close>

type_synonym ref = nat

record world =
  self :: net
  heap :: "ref \<Rightarrow> vec list"

definition forward_prop :: "world \<Rightarrow> ref \<Rightarrow> world \<times> (error + ref)" where
  "forward_prop s x =
     (case forward_list (self s) (heap s x) of
        (y, r) \<Rightarrow> (s\<lparr>heap := (heap s)(x := y)\<rparr>, (case r of Some e \<Rightarrow> Inl e | None \<Rightarrow> Inr x)))"

subsection \<open>Backpropagation\<close>

text \<open>A target is \<open>labels[sample]\<close>: a scalar when \<open>labels\<close> is one-dimensional, a row when
  it is two-dimensional.\<close>

datatype target = Scalar real | Vector vec

text \<open>\<open>target - y[-1]\<close>.\<close>

fun target_minus :: "target \<Rightarrow> vec \<Rightarrow> error + vec" where
  "target_minus (Scalar t) out = Inr (map (\<lambda>v. t - v) out)"
| "target_minus (Vector t) out = bcast (\<lambda>a b. a - b) t out"

text \<open>The first two lines of \<open>_back_prop\<close>: \<open>error * self.activity_derivative(y[-1])\<close>.\<close>

definition output_delta :: "vec list \<Rightarrow> target \<Rightarrow> error + vec" where
  "output_delta y t =
     err_bind (last_err y) (\<lambda>out.
     err_bind (target_minus t out) (\<lambda>err.
     bcast (\<lambda>a b. a * b) err (map tanh_derivative out)))"

text \<open>The loop over \<open>i\<close> in \<open>range(self.layers - 2, 0, -1)\<close>; the argument is \<open>i\<close> itself.\<close>

fun hidden_deltas :: "mat list \<Rightarrow> vec list \<Rightarrow> nat \<Rightarrow> vec list \<Rightarrow> error + vec list" where
  "hidden_deltas W y 0 delta_vec = Inr delta_vec"
| "hidden_deltas W y (Suc i) delta_vec =
     err_bind (last_err delta_vec) (\<lambda>d.
     err_bind (nth_err W (Suc i)) (\<lambda>w.
     err_bind (dot d (transpose_mat (drop_first w))) (\<lambda>err.
     err_bind (nth_err y (Suc i)) (\<lambda>yi.
     err_bind (bcast (\<lambda>a b. a * b) err (map tanh_derivative (drop 1 yi))) (\<lambda>err'.
     hidden_deltas W y i (delta_vec @ [err']))))))"

text \<open>One step of the update loop: the new contents of \<open>self.weights[i]\<close>.\<close>

definition updated_matrix :: "int list \<Rightarrow> vec list \<Rightarrow> vec list \<Rightarrow> real \<Rightarrow> mat list \<Rightarrow> nat \<Rightarrow> error + mat" where
  "updated_matrix ar y delta_vec learning_rate W i =
     err_bind (nth_err y i) (\<lambda>yi.
     err_bind (nth_err ar i) (\<lambda>a.
     err_bind (reshape_row yi (a + 1)) (\<lambda>layer.
     err_bind (nth_err delta_vec i) (\<lambda>d.
     err_bind (nth_err ar (Suc i)) (\<lambda>b.
     err_bind (reshape_row d b) (\<lambda>delta.
     err_bind (nth_err W i) (\<lambda>w.
     iadd w (map_mat (\<lambda>v. learning_rate * v) (outer layer delta)))))))))"

text \<open>The loop over \<open>i\<close> in \<open>range(len(self.weights))\<close>, \<open>k\<close> iterations left. The matrices
  already rewritten stay rewritten when a later step raises.\<close>

fun update_loop :: "int list \<Rightarrow> vec list \<Rightarrow> vec list \<Rightarrow> real \<Rightarrow> nat \<Rightarrow> nat \<Rightarrow> mat list \<Rightarrow> mat list \<times> error option" where
  "update_loop ar y delta_vec learning_rate i 0 W = (W, None)"
| "update_loop ar y delta_vec learning_rate i (Suc k) W =
     (case updated_matrix ar y delta_vec learning_rate W i of
        Inl e \<Rightarrow> (W, Some e)
      | Inr w \<Rightarrow> update_loop ar y delta_vec learning_rate (Suc i) k (W[i := w]))"

definition back_prop :: "net \<Rightarrow> vec list \<Rightarrow> target \<Rightarrow> real \<Rightarrow> net \<times> error option" where
  "back_prop n y t learning_rate =
     (case err_bind (output_delta y t) (\<lambda>d. hidden_deltas (weights n) y (nat (layers n - 2)) [d]) of
        Inl e \<Rightarrow> (n, Some e)
      | Inr delta_vec \<Rightarrow>
          (case update_loop (arch n) y (rev delta_vec) learning_rate 0 (length (weights n)) (weights n) of
             (W, r) \<Rightarrow> (n\<lparr>weights := W\<rparr>, r)))"

subsection \<open>Training\<close>

text \<open>
  One iteration of the loop of \<open>fit\<close>. \<open>X\<close> is the global array of the notebook, whose
  row count bounds the index drawn; \<open>r\<close> is the raw draw of this iteration. The list
  \<open>[Z[sample]]\<close> is new in each iteration, so the contents of the list are passed on
  directly. The counter \<open>c\<close> counts the calls of \<open>_back_prop\<close>. The progress line printed
  every 10000 iterations is left out.
\<close>

fun fit_step :: "mat \<Rightarrow> nat \<Rightarrow> mat \<Rightarrow> target list \<Rightarrow> real \<Rightarrow> net \<times> nat \<Rightarrow> (net \<times> nat) \<times> error option" where
  "fit_step X r Z labels learning_rate (n, c) =
     (case randint r (nrows X) of
        Inl e \<Rightarrow> ((n, c), Some e)
      | Inr sample \<Rightarrow>
          (case nth_err (rows Z) sample of
             Inl e \<Rightarrow> ((n, c), Some e)
           | Inr z \<Rightarrow>
               (case forward_list n [z] of
                  (y, Some e) \<Rightarrow> ((n, c), Some e)
                | (y, None) \<Rightarrow>
                    (case nth_err labels sample of
                       Inl e \<Rightarrow> ((n, c), Some e)
                     | Inr t \<Rightarrow>
                         (case back_prop n y t learning_rate of
                            (n', res) \<Rightarrow> ((n', Suc c), res))))))"

text \<open>The loop over \<open>k\<close> in \<open>range(epochs)\<close>, \<open>m\<close> iterations left; \<open>idx k\<close> is the raw draw
  of iteration \<open>k\<close>.\<close>

fun fit_loop :: "mat \<Rightarrow> (nat \<Rightarrow> nat) \<Rightarrow> mat \<Rightarrow> target list \<Rightarrow> real \<Rightarrow> nat \<Rightarrow> nat \<Rightarrow> net \<times> nat
                 \<Rightarrow> (net \<times> nat) \<times> error option" where
  "fit_loop X idx Z labels learning_rate k 0 s = (s, None)"
| "fit_loop X idx Z labels learning_rate k (Suc m) s =
     (case fit_step X (idx k) Z labels learning_rate s of
        (s', Some e) \<Rightarrow> (s', Some e)
      | (s', None) \<Rightarrow> fit_loop X idx Z labels learning_rate (Suc k) m s')"

text \<open>\<open>Z\<close> is \<open>data\<close> with a column of ones in front.\<close>

definition fit :: "mat \<Rightarrow> (nat \<Rightarrow> nat) \<Rightarrow> net \<Rightarrow> mat \<Rightarrow> target list \<Rightarrow> real \<Rightarrow> int \<Rightarrow> (net \<times> nat) \<times> error option" where
  "fit X idx n data labels learning_rate epochs =
     fit_loop X idx \<lparr>ncols = Suc (ncols data), rows = map (\<lambda>r. 1 # r) (rows data)\<rparr>
       labels learning_rate 0 (nat epochs) (n, 0)"

subsection \<open>Prediction\<close>

text \<open>The loop of \<open>predict_single_data\<close> walks \<open>self.weights\<close> in order.\<close>

fun predict_loop :: "mat list \<Rightarrow> vec \<Rightarrow> error + vec" where
  "predict_loop [] val = Inr val"
| "predict_loop (w # ws) val = err_bind (dot val w) (\<lambda>a. predict_loop ws (1 # map tanh a))"

definition predict_single_data :: "net \<Rightarrow> vec \<Rightarrow> error + real" where
  "predict_single_data n x = err_bind (predict_loop (weights n) (1 # x)) (\<lambda>val. nth_err val 1)"

text \<open>\<open>np.array([]).reshape(0, k)\<close> and \<open>np.vstack((Y, y))\<close>.\<close>

definition empty_rows :: "int \<Rightarrow> error + mat" where
  "empty_rows k = (if k < 0 then Inl ValueError else Inr \<lparr>ncols = nat k, rows = []\<rparr>)"

definition vstack :: "mat \<Rightarrow> mat \<Rightarrow> error + mat" where
  "vstack A B = (if ncols A = ncols B then Inr \<lparr>ncols = ncols A, rows = rows A @ rows B\<rparr>
                 else Inl ValueError)"

fun predict_rows :: "net \<Rightarrow> vec list \<Rightarrow> mat \<Rightarrow> error + mat" where
  "predict_rows n [] Y = Inr Y"
| "predict_rows n (x # xs) Y =
     err_bind (predict_single_data n x) (\<lambda>v.
     err_bind (vstack Y \<lparr>ncols = 1, rows = [[v]]\<rparr>) (\<lambda>Y'.
     predict_rows n xs Y'))"

definition predict :: "net \<Rightarrow> vec list \<Rightarrow> error + mat" where
  "predict n X =
     err_bind (nth_int (arch n) (- 1)) (\<lambda>k.
     err_bind (empty_rows k) (\<lambda>Y.
     predict_rows n X Y))"

subsection \<open>The shape invariant\<close>

text \<open>
  One matrix per layer boundary; the matrix of boundary \<open>i\<close> has \<open>1 + arch[i]\<close> rows and
  \<open>arch[i + 1]\<close> columns, and its buffer agrees with that shape.
\<close>

definition shape_inv :: "net \<Rightarrow> bool" where
  "shape_inv n =
     (length (weights n) = length (arch n) - 1 \<and>
      list_all (\<lambda>i. int (nrows (weights n ! i)) = 1 + arch n ! i \<and>
                     int (ncols (weights n ! i)) = arch n ! Suc i \<and>
                     wf_mat (weights n ! i))
               [0..<length (weights n)])"

text \<open>
  A network as \<open>__init__\<close> builds it from an architecture of at least two layers, all of
  positive size.
\<close>

definition well_formed :: "net \<Rightarrow> bool" where
  "well_formed n =
     (shape_inv n \<and> layers n = int (length (arch n)) \<and> 2 \<le> length (arch n) \<and>
      list_all (\<lambda>a. 0 < a) (arch n))"

text \<open>
  An activation trace of the network: one vector per layer, of the layer's size, each but
  the last with the bias entry in front.
\<close>

definition trace_ok :: "net \<Rightarrow> vec list \<Rightarrow> bool" where
  "trace_ok n y =
     (length y = length (arch n) \<and>
      list_all (\<lambda>i. int (length (y ! i)) = arch n ! i + (if Suc i < length (arch n) then 1 else 0))
               [0..<length y])"

text \<open>A target that NumPy broadcasts against an output of \<open>m\<close> values: a scalar, a vector
  of \<open>m\<close> entries, or a vector of one entry.\<close>

fun target_ok :: "int \<Rightarrow> target \<Rightarrow> bool" where
  "target_ok m (Scalar t) = True"
| "target_ok m (Vector t) = (int (length t) = m \<or> length t = 1)"

text \<open>
  The same two conditions read off the weight matrices alone: consecutive matrices chain
  (the rows of the next are the columns of this one and the bias row), and a trace fits
  the matrices.
\<close>

definition chain :: "mat list \<Rightarrow> bool" where
  "chain W = (\<forall>j. Suc j < length W \<longrightarrow> nrows (W ! Suc j) = Suc (ncols (W ! j)))"

definition fits :: "mat list \<Rightarrow> vec list \<Rightarrow> bool" where
  "fits W y =
     (length y = Suc (length W) \<and> (\<forall>j<length W. length (y ! j) = nrows (W ! j)) \<and>
      length (last y) = ncols (last W))"

subsection \<open>The notebook's data\<close>

text \<open>The array \<open>X\<close> and the labels \<open>y\<close> of the notebook, and the network
  \<open>FullyConnectedNN_np([2, 2, 1])\<close> as a generator drawing \<open>0\<close> builds it.\<close>

definition X_xor :: mat where
  "X_xor = \<lparr>ncols = 2, rows = [[0, 0], [0, 1], [1, 0], [1, 1]]\<rparr>"

definition y_xor :: "target list" where
  "y_xor = [Scalar 0, Scalar 1, Scalar 1, Scalar 0]"

definition net_221 :: net where
  "net_221 = \<lparr>arch = [2, 2, 1], layers = 3,
              weights = [\<lparr>ncols = 2, rows = [[- 1, - 1], [- 1, - 1], [- 1, - 1]]\<rparr>,
                         \<lparr>ncols = 1, rows = [[- 1], [- 1], [- 1]]\<rparr>]\<rparr>"

text \<open>A network of one input and two outputs, as the draws \<open>0.5, 0.75, 0.5, 0.5\<close> build
  it, and the first two samples of \<open>X\<close> with their labels.\<close>

definition net_12 :: net where
  "net_12 = \<lparr>arch = [1, 2], layers = 2, weights = [\<lparr>ncols = 2, rows = [[0, 1 / 2], [0, 0]]\<rparr>]\<rparr>"

definition X_half :: mat where
  "X_half = \<lparr>ncols = 2, rows = [[0, 0], [0, 1]]\<rparr>"

definition y_half :: "target list" where
  "y_half = [Scalar 0, Scalar 1]"

text \<open>The draws \<open>0.5, 0.75, 0.5, 0.5, \<dots>\<close>, and a heap whose list \<open>0\<close> is
  \<open>[array([1., 0.])]\<close>, the input \<open>[0.]\<close> with its bias entry.\<close>

definition half_draws :: "nat \<Rightarrow> real" where
  "half_draws k = (if k = 1 then 3 / 4 else 1 / 2)"

definition heap_0 :: "ref \<Rightarrow> vec list" where
  "heap_0 r = (if r = 0 then [[1, 0]] else [])"

definition world_0 :: world where
  "world_0 = \<lparr>self = net_12, heap = heap_0\<rparr>"

text \<open>The raw draws \<open>0, 1, 2, \<dots>\<close> of the index generator, and the draws that are all \<open>3\<close>.\<close>

definition three_draws :: "nat \<Rightarrow> nat" where
  "three_draws k = 3"

definition count_draws :: "nat \<Rightarrow> nat" where
  "count_draws k = k"

section \<open>Construction\<close>

lemma rand_Inr_iff:
  "(\<exists>r. rand A g p d0 d1 = Inr r) \<longleftrightarrow> 0 \<le> d0 \<and> 0 \<le> d1 \<and> A (nat d0) (nat d1) = None"
  by (auto simp: rand_def split: option.splits)

lemma rand_Inl:
  "rand A g p d0 d1 = Inl e \<Longrightarrow> e = ValueError \<or> (\<exists>m k. A m k = Some e)"
  by (auto simp: rand_def split: if_splits option.splits)

lemma init_weights_length: "init_weights A g p as = Inr ws \<Longrightarrow> length ws = length as - 1"
  by (induction A g p as arbitrary: ws rule: init_weights.induct)
     (auto split: sum.splits prod.splits)

lemma init_weights_nth:
  "init_weights A g p as = Inr ws \<Longrightarrow> i < length ws \<Longrightarrow>
   \<exists>q w q'. rand A g q (as ! i + 1) (as ! Suc i) = Inr (w, q') \<and> ws ! i = map_mat (\<lambda>x. 2 * x - 1) w"
proof (induction A g p as arbitrary: ws i rule: init_weights.induct)
  case (1 A g p a b as)
  from "1.prems"(1) obtain w p' ws' where
    r: "rand A g p (a + 1) b = Inr (w, p')" and t: "init_weights A g p' (b # as) = Inr ws'"
    and ws: "ws = map_mat (\<lambda>x. 2 * x - 1) w # ws'"
    by (auto split: sum.splits prod.splits)
  show ?case
  proof (cases i)
    case 0
    then show ?thesis using r ws by auto
  next
    case (Suc j)
    then have "j < length ws'" using "1.prems"(2) ws by simp
    from "1.IH"[OF r refl t this] show ?thesis using Suc ws by simp
  qed
qed (auto)

lemma rand_shape:
  "rand A g q d0 d1 = Inr (w, q') \<Longrightarrow>
   int (nrows (map_mat f w)) = d0 \<and> int (ncols (map_mat f w)) = d1 \<and> wf_mat (map_mat f w)"
  by (auto simp: rand_def map_mat_def nrows_def wf_mat_def list_all_iff
      split: if_splits option.splits)

lemma rand_range:
  "rand A g q d0 d1 = Inr (w, q') \<Longrightarrow> unit_draws g \<Longrightarrow> r \<in> set (rows (map_mat (\<lambda>x. 2 * x - 1) w))
   \<Longrightarrow> v \<in> set r \<Longrightarrow> - 1 \<le> v \<and> v < 1"
  unfolding rand_def map_mat_def unit_draws_def
  by (fastforce split: if_splits option.splits)

text \<open>\<open>__init__\<close> returns a network exactly when \<open>np.random.rand\<close> makes every matrix.\<close>

lemma init_weights_Inr_iff:
  "(\<exists>ws. init_weights A g p as = Inr ws) \<longleftrightarrow>
     (\<forall>i<length as - 1. - 1 \<le> as ! i \<and> 0 \<le> as ! Suc i \<and>
                          A (nat (as ! i + 1)) (nat (as ! Suc i)) = None)"
proof (induction A g p as rule: init_weights.induct)
  case (1 A g p a b as)
  let ?ok = "\<lambda>xs i. - 1 \<le> xs ! i \<and> 0 \<le> xs ! Suc i \<and> A (nat (xs ! i + 1)) (nat (xs ! Suc i)) = None"
  have split: "(\<forall>i<length (a # b # as) - 1. ?ok (a # b # as) i) \<longleftrightarrow>
      ?ok (a # b # as) 0 \<and> (\<forall>i<length (b # as) - 1. ?ok (b # as) i)"
    by (simp add: All_less_Suc2)
  have first: "(\<exists>r. rand A g p (a + 1) b = Inr r) \<longleftrightarrow> ?ok (a # b # as) 0"
    using rand_Inr_iff[of A g p "a + 1" b] by auto
  show ?case
  proof (cases "rand A g p (a + 1) b")
    case (Inl e)
    then have "\<not> ?ok (a # b # as) 0" using first by auto
    then show ?thesis using Inl split by simp
  next
    case (Inr r)
    obtain w p' where r: "r = (w, p')" by (cases r)
    have ok0: "?ok (a # b # as) 0" using first Inr by auto
    have "(\<exists>ws. init_weights A g p (a # b # as) = Inr ws) \<longleftrightarrow>
          (\<exists>ws. init_weights A g p' (b # as) = Inr ws)"
      using Inr r by (auto split: sum.splits)
    then show ?thesis using "1.IH"[OF Inr r[symmetric]] split ok0 by simp
  qed
qed (auto)

lemma init_weights_Inl:
  "init_weights A g p as = Inl e \<Longrightarrow> e = ValueError \<or> (\<exists>m k. A m k = Some e)"
proof (induction A g p as rule: init_weights.induct)
  case (1 A g p a b as)
  show ?case
  proof (cases "rand A g p (a + 1) b")
    case (Inl e')
    then have "e' = e" using "1.prems" by simp
    then show ?thesis using rand_Inl Inl by blast
  next
    case (Inr r)
    obtain w p' where r: "r = (w, p')" by (cases r)
    then have "init_weights A g p' (b # as) = Inl e"
      using "1.prems" Inr by (auto split: sum.splits)
    from "1.IH"[OF Inr r[symmetric] this] show ?thesis .
  qed
qed (auto)

lemma construct_Inr_iff:
  "(\<exists>n. construct A g a = Inr n) \<longleftrightarrow>
     (\<forall>i<length a - 1. - 1 \<le> a ! i \<and> 0 \<le> a ! Suc i \<and> A (nat (a ! i + 1)) (nat (a ! Suc i)) = None)"
  using init_weights_Inr_iff[of A g 0 a]
  by (cases "init_weights A g 0 a") (auto simp: construct_def)

text \<open>A layer too large for NumPy: \<open>rand(2 ** 63 + 1, 1)\<close> is refused.\<close>

lemma construct_beyond_limit: "construct machine_alloc g [2 ^ 63, 1] = Inl ValueError"
  by (simp add: construct_def rand_def machine_alloc_def)

lemma construct_shape_inv: "construct A g a = Inr n \<Longrightarrow> shape_inv n"
proof -
  assume c: "construct A g a = Inr n"
  then obtain ws where ws: "init_weights A g 0 a = Inr ws" and
    n: "n = \<lparr>arch = a, layers = int (length a), weights = ws\<rparr>"
    by (auto simp: construct_def split: sum.splits)
  have "int (nrows (ws ! i)) = 1 + a ! i \<and> int (ncols (ws ! i)) = a ! Suc i \<and> wf_mat (ws ! i)"
    if "i < length ws" for i
  proof -
    from init_weights_nth[OF ws that] obtain q w q' where
      r: "rand A g q (a ! i + 1) (a ! Suc i) = Inr (w, q')" and e: "ws ! i = map_mat (\<lambda>x. 2 * x - 1) w"
      by blast
    show ?thesis using rand_shape[OF r] e by simp
  qed
  then show ?thesis using n init_weights_length[OF ws] by (simp add: shape_inv_def list_all_iff)
qed

text \<open>
  C2 (amended). \<open>__init__\<close> validates nothing and has no exception of its own. An
  architecture of fewer than two layers has no layer boundary and gives a network without
  weight matrices. A layer of size zero is accepted: whenever no dimension is negative and
  NumPy makes every matrix, a network is returned, the matrices of the empty layers empty.
  Only \<open>np.random.rand\<close> raises: when the dimension \<open>arch[i] + 1\<close> or \<open>arch[i + 1]\<close> of some
  layer boundary is negative no network is produced, and every exception is a
  \<open>ValueError\<close> or the one the allocation of a matrix raised.
\<close>

theorem construct_no_validation:
  "(length a < 2 \<longrightarrow> construct A g a = Inr \<lparr>arch = a, layers = int (length a), weights = []\<rparr>) \<and>
   (list_all (\<lambda>i. - 1 \<le> a ! i \<and> 0 \<le> a ! Suc i \<and> A (nat (a ! i + 1)) (nat (a ! Suc i)) = None)
      [0..<length a - 1] \<longrightarrow> (\<exists>n. construct A g a = Inr n)) \<and>
   ((\<exists>i<length a - 1. a ! i < - 1 \<or> a ! Suc i < 0) \<longrightarrow> (\<exists>e. construct A g a = Inl e)) \<and>
   (construct A g a = Inl e \<longrightarrow> e = ValueError \<or> (\<exists>m k. A m k = Some e))"
proof -
  have 1: "construct A g a = Inr \<lparr>arch = a, layers = int (length a), weights = []\<rparr>"
    if "length a < 2"
  proof -
    from that have "a = [] \<or> (\<exists>x. a = [x])"
      by (cases a) (auto simp: length_Suc_conv)
    then have "init_weights A g 0 a = Inr []" by auto
    then show ?thesis by (simp add: construct_def)
  qed
  have 2: "\<exists>n. construct A g a = Inr n"
    if "list_all (\<lambda>i. - 1 \<le> a ! i \<and> 0 \<le> a ! Suc i \<and> A (nat (a ! i + 1)) (nat (a ! Suc i)) = None)
          [0..<length a - 1]"
    using that construct_Inr_iff[of A g a] by (simp add: list_all_iff)
  have 3: "\<exists>e. construct A g a = Inl e" if "\<exists>i<length a - 1. a ! i < - 1 \<or> a ! Suc i < 0"
  proof -
    have "\<not> (\<exists>n. construct A g a = Inr n)"
      using that construct_Inr_iff[of A g a] by force
    then show ?thesis by (cases "construct A g a") auto
  qed
  have 4: "e = ValueError \<or> (\<exists>m k. A m k = Some e)" if "construct A g a = Inl e"
  proof -
    from that have "init_weights A g 0 a = Inl e"
      by (auto simp: construct_def split: sum.splits)
    then show ?thesis by (rule init_weights_Inl)
  qed
  show ?thesis using 1 2 3 4 by blast
qed

theorem construct_no_validation_witness:
  "construct machine_alloc zero_draws [5] = Inr \<lparr>arch = [5], layers = 1, weights = []\<rparr> \<and>
   (\<exists>n. construct machine_alloc zero_draws [3, 0, 2] = Inr n) \<and>
   (\<exists>e. construct machine_alloc zero_draws [3, - 1] = Inl e) \<and>
   construct machine_alloc zero_draws [3, - 1] = Inl ValueError"
proof -
  have a: "length [5 :: int] < 2" by simp
  have b: "list_all (\<lambda>i. - 1 \<le> [3, 0, 2 :: int] ! i \<and> 0 \<le> [3, 0, 2 :: int] ! Suc i \<and>
             machine_alloc (nat ([3, 0, 2] ! i + 1)) (nat ([3, 0, 2] ! Suc i)) = None)
           [0..<length [3, 0, 2 :: int] - 1]"
    by (simp add: machine_alloc_def upt_rec)
  have c: "\<exists>i<length [3, - 1 :: int] - 1. [3, - 1 :: int] ! i < - 1 \<or> [3, - 1 :: int] ! Suc i < 0"
    by simp
  have 1: "construct machine_alloc zero_draws [5] = Inr \<lparr>arch = [5], layers = 1, weights = []\<rparr>"
    using construct_no_validation[of "[5]" machine_alloc zero_draws] a by simp
  have 2: "\<exists>n. construct machine_alloc zero_draws [3, 0, 2] = Inr n"
    using construct_no_validation[of "[3, 0, 2]" machine_alloc zero_draws] b by blast
  have 3: "\<exists>e. construct machine_alloc zero_draws [3, - 1] = Inl e"
    using construct_no_validation[of "[3, - 1]" machine_alloc zero_draws] c by blast
  have 4: "construct machine_alloc zero_draws [3, - 1] = Inl ValueError"
    by (simp add: construct_def rand_def)
  show ?thesis using 1 2 3 4 by blast
qed

text \<open>
  The architectures \<open>[5]\<close> and \<open>[3, 0, 2]\<close> both construct: the first a network without any
  weight matrix, the second one with matrices of shapes \<open>(4, 0)\<close> and \<open>(1, 2)\<close>.
\<close>

theorem construct_no_validation_counterexample:
  "construct machine_alloc zero_draws [5] = Inr \<lparr>arch = [5], layers = 1, weights = []\<rparr> \<and>
   construct machine_alloc zero_draws [3, 0, 2] =
     Inr \<lparr>arch = [3, 0, 2], layers = 3,
          weights = [\<lparr>ncols = 0, rows = [[], [], [], []]\<rparr>, \<lparr>ncols = 2, rows = [[- 1, - 1]]\<rparr>]\<rparr>"
  by (simp add: construct_def rand_def machine_alloc_def zero_draws_def map_mat_def upt_rec)

text \<open>
  C6 (amended). For an architecture of at least two layers, all sizes positive and such
  that NumPy makes every matrix (the sizes within its limits and the machine's memory),
  and a generator whose draws lie in \<open>[0, 1)\<close> as those of \<open>np.random.rand\<close> do,
  construction succeeds with one matrix per layer boundary, matrix \<open>i\<close> of shape
  \<open>(arch[i] + 1, arch[i + 1])\<close>, and every entry \<open>2 * draw - 1\<close> lies in the half-open
  interval \<open>[-1, 1)\<close>.
\<close>

theorem construct_shapes:
  assumes "unit_draws g" "2 \<le> length a" "\<forall>x\<in>set a. 0 < x"
    "list_all (\<lambda>i. A (nat (a ! i + 1)) (nat (a ! Suc i)) = None) [0..<length a - 1]"
  shows "\<exists>n. construct A g a = Inr n \<and> length (weights n) = length a - 1 \<and>
          (\<forall>i<length a - 1.
             int (nrows (weights n ! i)) = a ! i + 1 \<and> int (ncols (weights n ! i)) = a ! Suc i \<and>
             wf_mat (weights n ! i) \<and>
             (\<forall>r\<in>set (rows (weights n ! i)). \<forall>v\<in>set r. - 1 \<le> v \<and> v < 1))"
proof -
  have "- 1 \<le> a ! i \<and> 0 \<le> a ! Suc i \<and> A (nat (a ! i + 1)) (nat (a ! Suc i)) = None"
    if i: "i < length a - 1" for i
  proof -
    from i have "a ! i \<in> set a" "a ! Suc i \<in> set a" by simp_all
    then have "0 < a ! i" "0 < a ! Suc i" using assms(3) by blast+
    moreover have "A (nat (a ! i + 1)) (nat (a ! Suc i)) = None"
      using assms(4) i by (simp add: list_all_iff)
    ultimately show ?thesis by simp
  qed
  then obtain ws where ws: "init_weights A g 0 a = Inr ws"
    using init_weights_Inr_iff[of A g 0 a] by blast
  let ?n = "\<lparr>arch = a, layers = int (length a), weights = ws\<rparr>"
  have c: "construct A g a = Inr ?n" using ws by (simp add: construct_def)
  have len: "length ws = length a - 1" using ws by (rule init_weights_length)
  have "int (nrows (ws ! i)) = a ! i + 1 \<and> int (ncols (ws ! i)) = a ! Suc i \<and> wf_mat (ws ! i) \<and>
        (\<forall>r\<in>set (rows (ws ! i)). \<forall>v\<in>set r. - 1 \<le> v \<and> v < 1)" if "i < length a - 1" for i
  proof -
    from that len have "i < length ws" by simp
    from init_weights_nth[OF ws this] obtain q w q' where
      r: "rand A g q (a ! i + 1) (a ! Suc i) = Inr (w, q')" and e: "ws ! i = map_mat (\<lambda>x. 2 * x - 1) w"
      by blast
    show ?thesis using rand_shape[OF r] rand_range[OF r assms(1)] e by auto
  qed
  then show ?thesis using c len by auto
qed

theorem construct_shapes_witness:
  "unit_draws zero_draws \<and> 2 \<le> length [2, 2, 1 :: int] \<and> list_all (\<lambda>x. 0 < x) [2, 2, 1 :: int] \<and>
   machine_alloc 3 2 = None \<and> machine_alloc 3 1 = None \<and>
   (\<exists>n. construct machine_alloc zero_draws [2, 2, 1] = Inr n \<and> length (weights n) = 2 \<and>
      int (nrows (weights n ! 0)) = 3 \<and> int (ncols (weights n ! 0)) = 2 \<and>
      int (nrows (weights n ! 1)) = 3 \<and> int (ncols (weights n ! 1)) = 1)"
proof -
  have u: "unit_draws zero_draws" by (simp add: unit_draws_def zero_draws_def)
  have l: "2 \<le> length [2, 2, 1 :: int]" by simp
  have p: "\<forall>x\<in>set [2, 2, 1 :: int]. 0 < x" by simp
  have m: "machine_alloc 3 2 = None" "machine_alloc 3 1 = None" by (simp_all add: machine_alloc_def)
  then have k: "list_all (\<lambda>i. machine_alloc (nat ([2, 2, 1] ! i + 1)) (nat ([2, 2, 1] ! Suc i)) = None)
                 [0..<length [2, 2, 1 :: int] - 1]"
    by (simp add: upt_rec)
  from construct_shapes[OF u l p k] obtain n where
    n: "construct machine_alloc zero_draws [2, 2, 1] = Inr n"
      "length (weights n) = length [2, 2, 1 :: int] - 1"
    and a: "\<forall>i<length [2, 2, 1 :: int] - 1.
             int (nrows (weights n ! i)) = [2, 2, 1] ! i + 1 \<and>
             int (ncols (weights n ! i)) = [2, 2, 1] ! Suc i \<and> wf_mat (weights n ! i) \<and>
             (\<forall>r\<in>set (rows (weights n ! i)). \<forall>v\<in>set r. - 1 \<le> v \<and> v < 1)"
    by blast
  from a have "int (nrows (weights n ! 0)) = 3 \<and> int (ncols (weights n ! 0)) = 2"
    by (auto dest!: spec[of _ 0])
  moreover from a have "int (nrows (weights n ! 1)) = 3 \<and> int (ncols (weights n ! 1)) = 1"
    by (auto dest!: spec[of _ 1])
  ultimately show ?thesis using u m n by auto
qed

text \<open>
  With a generator that draws \<open>0\<close>, a value \<open>np.random.rand\<close> can return, every weight is
  \<open>2 * 0 - 1 = -1\<close>: an entry on the boundary of the interval, not strictly inside it.
\<close>

theorem construct_open_interval_counterexample:
  "unit_draws zero_draws \<and>
   construct machine_alloc zero_draws [1, 1] =
     Inr \<lparr>arch = [1, 1], layers = 2, weights = [\<lparr>ncols = 1, rows = [[- 1], [- 1]]\<rparr>]\<rparr>"
  by (simp add: construct_def rand_def machine_alloc_def zero_draws_def map_mat_def unit_draws_def
      upt_rec)

section \<open>The shape invariant is kept\<close>

lemma length_stretch:
  "length xs = n \<or> length xs = 1 \<Longrightarrow> length (stretch n xs) = n"
  by (auto simp: stretch_def)

lemma set_stretch: "set (stretch n xs) \<subseteq> set xs"
  by (cases xs) (auto simp: stretch_def)

lemma iadd_shape: "iadd W U = Inr W' \<Longrightarrow> shape W' = shape W"
  by (auto simp: iadd_def shape_def nrows_def length_stretch split: if_splits)

lemma iadd_wf:
  assumes "iadd W U = Inr W'" "wf_mat W" "wf_mat U"
  shows "wf_mat W'"
proof -
  have g: "ncols U = ncols W \<or> ncols U = 1" and
    W': "W' = \<lparr>ncols = ncols W,
              rows = map (\<lambda>(w, u). map (\<lambda>(x, y). x + y) (zip w (stretch (ncols W) u)))
                         (zip (rows W) (stretch (nrows W) (rows U)))\<rparr>"
    using assms(1) by (auto simp: iadd_def split: if_splits)
  have "length (map (\<lambda>(x, y). x + y) (zip w (stretch (ncols W) u))) = ncols W"
    if "(w, u) \<in> set (zip (rows W) (stretch (nrows W) (rows U)))" for w u
  proof -
    from that have "w \<in> set (rows W)" "u \<in> set (stretch (nrows W) (rows U))"
      by (auto dest: set_zip_leftD set_zip_rightD)
    then have "length w = ncols W" "length u = ncols U"
      using assms(2,3) set_stretch[of "nrows W" "rows U"] by (auto simp: wf_mat_def list_all_iff)
    then show ?thesis using g by (auto simp: length_stretch)
  qed
  then show ?thesis unfolding W' by (auto simp: wf_mat_def list_all_iff)
qed

lemma wf_outer: "wf_mat (map_mat f (outer layer delta))"
  by (simp add: wf_mat_def map_mat_def outer_def list_all_iff)

lemma err_bind_Inr: "err_bind m f = Inr v \<longleftrightarrow> (\<exists>u. m = Inr u \<and> f u = Inr v)"
  by (cases m) (simp_all add: err_bind_def)

lemma nth_err_Inr: "nth_err xs i = Inr v \<longleftrightarrow> i < length xs \<and> v = xs ! i"
  by (auto simp: nth_err_def)

lemma updated_matrix_shape:
  assumes "updated_matrix ar y dv lr W i = Inr w"
  shows "i < length W \<and> shape w = shape (W ! i) \<and> (wf_mat (W ! i) \<longrightarrow> wf_mat w)"
proof -
  from assms obtain layer delta where
    i: "i < length W" and a: "iadd (W ! i) (map_mat (\<lambda>v. lr * v) (outer layer delta)) = Inr w"
    unfolding updated_matrix_def by (auto simp: err_bind_Inr nth_err_Inr)
  show ?thesis using i iadd_shape[OF a] iadd_wf[OF a _ wf_outer] by simp
qed

lemma update_loop_shape:
  "update_loop ar y dv lr i k W = (W', r) \<Longrightarrow>
   map shape W' = map shape W \<and> (list_all wf_mat W \<longrightarrow> list_all wf_mat W')"
proof (induction k arbitrary: i W)
  case 0
  then show ?case by simp
next
  case (Suc k)
  show ?case
  proof (cases "updated_matrix ar y dv lr W i")
    case (Inl e)
    then show ?thesis using Suc.prems by simp
  next
    case (Inr w)
    from updated_matrix_shape[OF Inr] have
      i: "i < length W" and s: "shape w = shape (W ! i)" and wf: "wf_mat (W ! i) \<longrightarrow> wf_mat w"
      by simp_all
    have 1: "map shape (W[i := w]) = map shape W"
      using i s by (simp add: map_update list_update_same_conv)
    have 2: "list_all wf_mat W \<longrightarrow> list_all wf_mat (W[i := w])"
      using i wf by (auto simp: list_all_iff dest!: subsetD[OF set_update_subset_insert])
    from Suc.prems Inr have "update_loop ar y dv lr (Suc i) k (W[i := w]) = (W', r)" by simp
    from Suc.IH[OF this] show ?thesis using 1 2 by simp
  qed
qed

lemma back_prop_frame:
  "arch (fst (back_prop n y t lr)) = arch n \<and> layers (fst (back_prop n y t lr)) = layers n \<and>
   map shape (weights (fst (back_prop n y t lr))) = map shape (weights n) \<and>
   (list_all wf_mat (weights n) \<longrightarrow> list_all wf_mat (weights (fst (back_prop n y t lr))))"
proof (cases "err_bind (output_delta y t) (\<lambda>d. hidden_deltas (weights n) y (nat (layers n - 2)) [d])")
  case (Inl e)
  then show ?thesis by (simp add: back_prop_def)
next
  case (Inr dv)
  obtain W r where u: "update_loop (arch n) y (rev dv) lr 0 (length (weights n)) (weights n) = (W, r)"
    by (cases "update_loop (arch n) y (rev dv) lr 0 (length (weights n)) (weights n)")
  then have "back_prop n y t lr = (n\<lparr>weights := W\<rparr>, r)" using Inr by (simp add: back_prop_def)
  then show ?thesis using update_loop_shape[OF u] by simp
qed

lemma shape_inv_alt:
  "shape_inv n \<longleftrightarrow> length (weights n) = length (arch n) - 1 \<and> list_all wf_mat (weights n) \<and>
     (\<forall>i<length (weights n). int (fst (map shape (weights n) ! i)) = 1 + arch n ! i \<and>
                               int (snd (map shape (weights n) ! i)) = arch n ! Suc i)"
  by (auto simp: shape_inv_def list_all_iff shape_def all_set_conv_all_nth)

lemma back_prop_shape_inv: "shape_inv n \<Longrightarrow> shape_inv (fst (back_prop n y t lr))"
proof -
  assume inv: "shape_inv n"
  let ?n = "fst (back_prop n y t lr)"
  have f: "arch ?n = arch n" "map shape (weights ?n) = map shape (weights n)"
    "list_all wf_mat (weights n) \<longrightarrow> list_all wf_mat (weights ?n)"
    using back_prop_frame[of n y t lr] by simp_all
  from f(2) have "length (weights ?n) = length (weights n)" by (rule map_eq_imp_length_eq)
  then show ?thesis using inv f unfolding shape_inv_alt by simp
qed

lemma fit_step_shape_inv:
  "shape_inv (fst s) \<Longrightarrow> shape_inv (fst (fst (fit_step X r Z labels lr s)))"
proof -
  assume inv: "shape_inv (fst s)"
  obtain n c where s: "s = (n, c)" by (cases s)
  have bp: "back_prop n y t lr = (n', res) \<Longrightarrow> shape_inv n'" for y t n' res
    using back_prop_shape_inv[of n y t lr] inv s by simp
  show ?thesis using inv unfolding s
    by (auto split: sum.splits prod.splits option.splits dest: bp)
qed

lemma fit_loop_shape_inv:
  "shape_inv (fst s) \<Longrightarrow> shape_inv (fst (fst (fit_loop X idx Z labels lr k m s)))"
proof (induction m arbitrary: k s)
  case 0
  then show ?case by simp
next
  case (Suc m)
  obtain s' r where st: "fit_step X (idx k) Z labels lr s = (s', r)"
    by (cases "fit_step X (idx k) Z labels lr s")
  have "shape_inv (fst s')" using fit_step_shape_inv[OF Suc.prems, of X "idx k" Z labels lr] st by simp
  then show ?case using st Suc.IH[of s' "Suc k"] by (cases r) simp_all
qed

lemma construct_net_221: "construct machine_alloc zero_draws [2, 2, 1] = Inr net_221"
  by (simp add: construct_def rand_def machine_alloc_def zero_draws_def map_mat_def net_221_def
      upt_rec)

text \<open>
  C7. The shape invariant holds of every network \<open>__init__\<close> returns, and \<open>_back_prop\<close>,
  \<open>fit\<close> and \<open>_forward_prop\<close> keep it, whatever their arguments and also when they end in
  an exception: matrix \<open>i\<close> has \<open>1 + arch[i]\<close> rows and \<open>arch[i + 1]\<close> columns. The update
  \<open>self.weights[i] += learning_rate * layer.T.dot(delta)\<close> leaves the shape of every
  matrix as it was, in any network.
\<close>

theorem shape_invariant:
  "(construct A g a = Inr n \<longrightarrow> shape_inv n) \<and>
   (shape_inv n \<longrightarrow> shape_inv (fst (back_prop n y t learning_rate))) \<and>
   (shape_inv n \<longrightarrow> shape_inv (fst (fst (fit X idx n data labels learning_rate epochs)))) \<and>
   (shape_inv (self s) \<longrightarrow> shape_inv (self (fst (forward_prop s x)))) \<and>
   map shape (weights (fst (back_prop n y t learning_rate))) = map shape (weights n)"
proof -
  have "shape_inv n \<Longrightarrow> shape_inv (fst (fst (fit X idx n data labels learning_rate epochs)))"
    unfolding fit_def by (rule fit_loop_shape_inv) simp
  moreover have "self (fst (forward_prop s x)) = self s"
    by (simp add: forward_prop_def split: prod.splits)
  ultimately show ?thesis
    using construct_shape_inv[of A g a n] back_prop_shape_inv[of n y t learning_rate]
      back_prop_frame[of n y t learning_rate]
    by simp
qed

theorem shape_invariant_witness:
  "shape_inv net_221 \<and>
   shape_inv (fst (back_prop net_221 [[1, 0, 0], [1, 0, 0], [0]] (Scalar 1) (1 / 10))) \<and>
   shape_inv (fst (fst (fit X_xor count_draws net_221 X_xor y_xor (1 / 10) 3))) \<and>
   shape_inv (self (fst (forward_prop \<lparr>self = net_221, heap = heap_0\<rparr> 0))) \<and>
   map shape (weights (fst (back_prop net_221 [[1, 0, 0], [1, 0, 0], [0]] (Scalar 1) (1 / 10))))
     = [(3, 2), (3, 1)]"
proof -
  have s: "map shape (weights net_221) = [(3, 2), (3, 1)]"
    by (simp add: net_221_def shape_def nrows_def)
  show ?thesis
    using shape_invariant[of machine_alloc zero_draws "[2, 2, 1]" net_221 "[[1, 0, 0], [1, 0, 0], [0]]"
        "Scalar 1" "1 / 10" X_xor count_draws X_xor y_xor 3 "\<lparr>self = net_221, heap = heap_0\<rparr>" 0]
      construct_net_221 s
    by simp
qed

section \<open>Forward propagation and prediction\<close>

lemma dot_ok: "length v = nrows M \<Longrightarrow> \<exists>a. dot v M = Inr a \<and> length a = ncols M"
  by (simp add: dot_def)

lemma dot_Inl: "dot v M = Inl e \<longleftrightarrow> e = ValueError \<and> length v \<noteq> nrows M"
  by (auto simp: dot_def)

lemma forward_loop_append: "forward_loop W i k y = (y', r) \<Longrightarrow> \<exists>ys. y' = y @ ys"
proof (induction k arbitrary: i y)
  case 0
  then show ?case by simp
next
  case (Suc k)
  show ?case
  proof (cases "err_bind (nth_err y i) (\<lambda>yi. err_bind (nth_err W i) (\<lambda>w. dot yi w))")
    case (Inl e)
    then show ?thesis using Suc.prems by simp
  next
    case (Inr a)
    then have "forward_loop W (Suc i) k (y @ [1 # map tanh a]) = (y', r)" using Suc.prems by simp
    from Suc.IH[OF this] show ?thesis by auto
  qed
qed

lemma forward_list_append: "forward_list n y = (y', r) \<Longrightarrow> \<exists>ys. y' = y @ ys"
  unfolding forward_list_def
  by (auto split: prod.splits option.splits sum.splits dest!: forward_loop_append)

lemma forward_loop_predict:
  assumes "forward_loop W i k y = (y', r)" "i + k < length W" "length y = Suc i"
  shows "case r of
           None \<Rightarrow> length y' = Suc (i + k) \<and>
                   predict_loop (drop i W) (y ! i) = predict_loop (drop (i + k) W) (last y')
         | Some e \<Rightarrow> predict_loop (drop i W) (y ! i) = Inl e"
  using assms
proof (induction k arbitrary: i y)
  case 0
  then have "y \<noteq> []" "y' = y" "r = None" by auto
  then have "last y' = y ! i" using 0(3) by (simp add: last_conv_nth)
  then show ?case using \<open>y' = y\<close> \<open>r = None\<close> 0(3) by simp
next
  case (Suc k)
  have i: "i < length W" "i < length y" using Suc.prems by simp_all
  then have d: "drop i W = W ! i # drop (Suc i) W" by (simp add: Cons_nth_drop_Suc)
  show ?case
  proof (cases "dot (y ! i) (W ! i)")
    case (Inl e)
    then have "r = Some e" using Suc.prems(1) i by (simp add: nth_err_def err_bind_def)
    then show ?thesis using Inl d by (simp add: err_bind_def)
  next
    case (Inr a)
    let ?y = "y @ [1 # map tanh a]"
    have f: "forward_loop W (Suc i) k ?y = (y', r)"
      using Suc.prems(1) i Inr by (simp add: nth_err_def err_bind_def)
    have p: "predict_loop (drop i W) (y ! i) = predict_loop (drop (Suc i) W) (?y ! Suc i)"
      using d Inr Suc.prems(3) by (simp add: err_bind_def nth_append)
    from Suc.IH[OF f] Suc.prems(2,3) show ?thesis using p by (cases r) simp_all
  qed
qed

lemma predict_loop_forward_list:
  assumes "weights n \<noteq> []"
  shows "predict_loop (weights n) v =
           (case forward_list n [v] of (y, None) \<Rightarrow> Inr (1 # last y) | (y, Some e) \<Rightarrow> Inl e)"
proof -
  let ?W = "weights n"
  obtain y' r where f: "forward_loop ?W 0 (length ?W - 1) [v] = (y', r)"
    by (cases "forward_loop ?W 0 (length ?W - 1) [v]")
  have l: "0 + (length ?W - 1) < length ?W" using assms by (cases ?W) simp_all
  note fp = forward_loop_predict[OF f l]
  show ?thesis
  proof (cases r)
    case (Some e)
    then show ?thesis using fp f by (simp add: forward_list_def)
  next
    case None
    have "Suc (length ?W - 1) = length ?W" using assms by (cases ?W) simp_all
    then have len: "length y' = length ?W" and
      p: "predict_loop ?W v = predict_loop (drop (length ?W - 1) ?W) (last y')"
      using fp None by simp_all
    have y': "y' \<noteq> []" using len assms by auto
    have dl: "drop (length ?W - 1) ?W = [last ?W]"
      using assms by (metis append_butlast_last_id append_eq_conv_conj length_butlast)
    show ?thesis
    proof (cases "dot (last y') (last ?W)")
      case (Inl e)
      then show ?thesis using f None p dl y' assms
        by (simp add: forward_list_def last_err_def err_bind_def)
    next
      case (Inr a)
      then show ?thesis using f None p dl y' assms
        by (simp add: forward_list_def last_err_def err_bind_def)
    qed
  qed
qed

lemma predict_single_data_forward:
  assumes "weights n \<noteq> []"
  shows "predict_single_data n x =
           (case forward_list n [1 # x] of (y, None) \<Rightarrow> nth_err (last y) 0 | (y, Some e) \<Rightarrow> Inl e)"
  unfolding predict_single_data_def predict_loop_forward_list[OF assms]
  by (auto simp: err_bind_def nth_err_def split: prod.splits option.splits)

lemma forward_loop_ok:
  assumes "chain W" "i + k < length W" "length y = Suc i" "\<forall>j\<le>i. length (y ! j) = nrows (W ! j)"
  shows "\<exists>y'. forward_loop W i k y = (y', None) \<and> length y' = Suc (i + k) \<and>
              (\<forall>j\<le>i + k. length (y' ! j) = nrows (W ! j))"
  using assms(2-)
proof (induction k arbitrary: i y)
  case 0
  then show ?case by simp
next
  case (Suc k)
  have i: "i < length W" "i < length y" "Suc i < length W" using Suc.prems by simp_all
  have "length (y ! i) = nrows (W ! i)" using Suc.prems(3) by simp
  then obtain a where a: "dot (y ! i) (W ! i) = Inr a" "length a = ncols (W ! i)"
    using dot_ok by blast
  let ?y = "y @ [1 # map tanh a]"
  have step: "forward_loop W i (Suc k) y = forward_loop W (Suc i) k ?y"
    using i a by (simp add: nth_err_def err_bind_def)
  have new: "length (?y ! Suc i) = nrows (W ! Suc i)"
    using a(2) assms(1) i(3) Suc.prems(2) by (simp add: chain_def nth_append)
  have all: "\<forall>j\<le>Suc i. length (?y ! j) = nrows (W ! j)"
  proof (intro allI impI)
    fix j assume "j \<le> Suc i"
    then consider "j \<le> i" | "j = Suc i" by linarith
    then show "length (?y ! j) = nrows (W ! j)"
    proof cases
      case 1
      then show ?thesis using Suc.prems(2,3) by (simp add: nth_append)
    next
      case 2
      then show ?thesis using new by simp
    qed
  qed
  have "Suc i + k < length W" "length ?y = Suc (Suc i)" using Suc.prems by simp_all
  from Suc.IH[OF this all] show ?case using step by simp
qed

lemma forward_list_ok:
  assumes "chain (weights n)" "weights n \<noteq> []" "length z = nrows (weights n ! 0)"
  shows "\<exists>y. forward_list n [z] = (y, None) \<and> fits (weights n) y"
proof -
  let ?W = "weights n"
  have l: "0 + (length ?W - 1) < length ?W" using assms(2) by (cases ?W) simp_all
  have "\<forall>j\<le>0. length ([z] ! j) = nrows (?W ! j)" using assms(3) by simp
  from forward_loop_ok[OF assms(1) l _ this] obtain y' where
    f: "forward_loop ?W 0 (length ?W - 1) [z] = (y', None)" and
    len: "length y' = Suc (length ?W - 1)" and
    all: "\<forall>j\<le>length ?W - 1. length (y' ! j) = nrows (?W ! j)"
    by auto
  have len': "length y' = length ?W" using len assms(2) by (cases ?W) simp_all
  then have ne: "y' \<noteq> []" using assms(2) by auto
  have "last y' = y' ! (length ?W - 1)" using ne len' by (simp add: last_conv_nth)
  moreover have "last ?W = ?W ! (length ?W - 1)" using assms(2) by (simp add: last_conv_nth)
  ultimately have "length (last y') = nrows (last ?W)" using all by simp
  then obtain a where a: "dot (last y') (last ?W) = Inr a" "length a = ncols (last ?W)"
    using dot_ok by blast
  have r: "forward_list n [z] = (y' @ [map tanh a], None)"
    using f ne assms(2) a(1) by (simp add: forward_list_def last_err_def err_bind_def)
  have "fits ?W (y' @ [map tanh a])"
    unfolding fits_def using len' all a(2) by (auto simp: nth_append)
  then show ?thesis using r by blast
qed

section \<open>Backpropagation on well-shaped arguments\<close>

lemma bcast_same: "length a = length b \<Longrightarrow> \<exists>c. bcast f a b = Inr c \<and> length c = length a"
  by (simp add: bcast_def)

lemma output_delta_ok:
  assumes "y \<noteq> []" "target_ok (int (length (last y))) t"
  shows "\<exists>d. output_delta y t = Inr d \<and> length d = length (last y)"
proof -
  have "\<exists>err. target_minus t (last y) = Inr err \<and> length err = length (last y)"
  proof (cases t)
    case (Scalar s)
    then show ?thesis by simp
  next
    case (Vector v)
    then show ?thesis using assms(2) by (auto simp: bcast_def)
  qed
  then obtain err where e: "target_minus t (last y) = Inr err" "length err = length (last y)"
    by blast
  then have "length err = length (map tanh_derivative (last y))" by simp
  from bcast_same[OF this] show ?thesis
    using assms(1) e by (simp add: output_delta_def last_err_def err_bind_def)
qed

lemma nrows_transpose_drop [simp]:
  "nrows (transpose_mat (drop_first w)) = ncols w"
  "ncols (transpose_mat (drop_first w)) = nrows w - 1"
  by (simp_all add: transpose_mat_def drop_first_def nrows_def)

lemma hidden_deltas_ok:
  assumes "chain W"
  shows "i < length W \<Longrightarrow> \<forall>j. 0 < j \<and> j \<le> i \<longrightarrow> j < length y \<and> length (y ! j) = nrows (W ! j) \<Longrightarrow>
         dv \<noteq> [] \<Longrightarrow> length (last dv) = ncols (W ! i) \<Longrightarrow>
         \<exists>dv'. hidden_deltas W y i dv = Inr (dv @ dv') \<and> length dv' = i \<and>
               (\<forall>k<i. length (dv' ! k) = ncols (W ! (i - Suc k)))"
proof (induction i arbitrary: dv)
  case 0
  then show ?case by simp
next
  case (Suc i)
  let ?w = "W ! Suc i"
  have ch: "nrows ?w = Suc (ncols (W ! i))" using assms Suc.prems(1) by (simp add: chain_def)
  have "length (last dv) = nrows (transpose_mat (drop_first ?w))" using Suc.prems(4) by simp
  then obtain err where err: "dot (last dv) (transpose_mat (drop_first ?w)) = Inr err"
    "length err = ncols (W ! i)"
    using dot_ok[of "last dv" "transpose_mat (drop_first ?w)"] ch by auto
  have yi: "Suc i < length y" "length (y ! Suc i) = nrows ?w" using Suc.prems(2) by auto
  then have "length err = length (map tanh_derivative (drop 1 (y ! Suc i)))"
    using err(2) ch by simp
  from bcast_same[OF this] obtain err' where
    err': "bcast (\<lambda>a b. a * b) err (map tanh_derivative (drop 1 (y ! Suc i))) = Inr err'"
    "length err' = ncols (W ! i)"
    using err(2) by auto
  have step: "hidden_deltas W y (Suc i) dv = hidden_deltas W y i (dv @ [err'])"
    using Suc.prems(1,3) err(1) yi(1) err'(1)
    by (simp add: err_bind_def last_err_def nth_err_def)
  have "i < length W" "\<forall>j. 0 < j \<and> j \<le> i \<longrightarrow> j < length y \<and> length (y ! j) = nrows (W ! j)"
    "dv @ [err'] \<noteq> []" "length (last (dv @ [err'])) = ncols (W ! i)"
    using Suc.prems err'(2) by simp_all
  from Suc.IH[OF this] obtain dv'' where
    h: "hidden_deltas W y i (dv @ [err']) = Inr ((dv @ [err']) @ dv'')" "length dv'' = i"
    "\<forall>k<i. length (dv'' ! k) = ncols (W ! (i - Suc k))"
    by blast
  have "\<forall>k<Suc i. length ((err' # dv'') ! k) = ncols (W ! (Suc i - Suc k))"
  proof (intro allI impI)
    fix k assume "k < Suc i"
    then show "length ((err' # dv'') ! k) = ncols (W ! (Suc i - Suc k))"
      using err'(2) h(3) by (cases k) simp_all
  qed
  then show ?case using step h(1,2) by (intro exI[of _ "err' # dv''"]) simp
qed

lemma reshape_row_ok: "int (length v) = k \<Longrightarrow> reshape_row v k = Inr v"
  by (auto simp: reshape_row_def)

lemma iadd_ok: "nrows U = nrows W \<Longrightarrow> ncols U = ncols W \<Longrightarrow> \<exists>W'. iadd W U = Inr W'"
  by (simp add: iadd_def)

lemma shape_outer [simp]:
  "nrows (map_mat f (outer layer delta)) = length layer"
  "ncols (map_mat f (outer layer delta)) = length delta"
  by (simp_all add: map_mat_def outer_def nrows_def)

lemma updated_matrix_ok:
  assumes "i < length W" "i < length y" "Suc i < length ar" "i < length dv"
    "int (nrows (W ! i)) = 1 + ar ! i" "int (ncols (W ! i)) = ar ! Suc i"
    "length (y ! i) = nrows (W ! i)" "length (dv ! i) = ncols (W ! i)"
  shows "\<exists>w. updated_matrix ar y dv lr W i = Inr w"
proof -
  have 1: "reshape_row (y ! i) (ar ! i + 1) = Inr (y ! i)"
    using assms(5,7) by (intro reshape_row_ok) simp
  have 2: "reshape_row (dv ! i) (ar ! Suc i) = Inr (dv ! i)"
    using assms(6,8) by (intro reshape_row_ok) simp
  obtain w where "iadd (W ! i) (map_mat (\<lambda>v. lr * v) (outer (y ! i) (dv ! i))) = Inr w"
    using iadd_ok[of "map_mat (\<lambda>v. lr * v) (outer (y ! i) (dv ! i))" "W ! i"] assms(7,8) by auto
  then show ?thesis
    using assms(1-4) 1 2 by (simp add: updated_matrix_def err_bind_def nth_err_def)
qed

lemma update_loop_ok:
  assumes "length ar = Suc (length W0)"
    "\<forall>j<length W0. int (nrows (W0 ! j)) = 1 + ar ! j \<and> int (ncols (W0 ! j)) = ar ! Suc j"
    "\<forall>j<length W0. j < length y \<and> length (y ! j) = nrows (W0 ! j)"
    "\<forall>j<length W0. j < length dv \<and> length (dv ! j) = ncols (W0 ! j)"
  shows "i + k \<le> length W0 \<Longrightarrow> map shape W = map shape W0 \<Longrightarrow>
         snd (update_loop ar y dv lr i k W) = None"
proof (induction k arbitrary: i W)
  case 0
  then show ?case by simp
next
  case (Suc k)
  have len: "length W = length W0" using Suc.prems(2) by (rule map_eq_imp_length_eq)
  have i: "i < length W0" using Suc.prems(1) by simp
  have "shape (W ! i) = shape (W0 ! i)"
    using Suc.prems(2) i len by (metis nth_map)
  then have sh: "nrows (W ! i) = nrows (W0 ! i)" "ncols (W ! i) = ncols (W0 ! i)"
    by (simp_all add: shape_def)
  have "\<exists>w. updated_matrix ar y dv lr W i = Inr w"
    using i len assms sh by (intro updated_matrix_ok) simp_all
  then obtain w where w: "updated_matrix ar y dv lr W i = Inr w" by blast
  from updated_matrix_shape[OF w] have "shape w = shape (W ! i)" by simp
  then have "(map shape W)[i := shape w] = map shape W"
    using i len by (simp add: list_update_same_conv)
  then have "map shape (W[i := w]) = map shape W0"
    using Suc.prems(2) by (simp add: map_update)
  moreover have "Suc i + k \<le> length W0" using Suc.prems(1) by simp
  ultimately have "snd (update_loop ar y dv lr (Suc i) k (W[i := w])) = None"
    by (rule Suc.IH[rotated])
  then show ?case using w by simp
qed

lemma rev_deltas_length:
  assumes "length dv' = i" "\<forall>k<i. length (dv' ! k) = ncols (W ! (i - Suc k))"
    "length d = ncols (W ! i)" "j \<le> i"
  shows "length (rev (d # dv') ! j) = ncols (W ! j)"
proof -
  have "rev (d # dv') ! j = (d # dv') ! (i - j)"
    using assms(1,4) by (simp add: rev_nth Suc_diff_le del: rev.simps)
  also have "length \<dots> = ncols (W ! j)"
  proof (cases "i - j")
    case 0
    then show ?thesis using assms(3,4) by simp
  next
    case (Suc k)
    then have "k < i" "i - Suc k = j" using assms(4) by simp_all
    then show ?thesis using Suc assms(2) by auto
  qed
  finally show ?thesis .
qed

lemma well_formed_chain:
  assumes "well_formed n"
  shows "chain (weights n)" "weights n \<noteq> []" "length (arch n) = Suc (length (weights n))"
    "\<forall>j<length (weights n). int (nrows (weights n ! j)) = 1 + arch n ! j \<and>
                              int (ncols (weights n ! j)) = arch n ! Suc j"
    "nat (layers n - 2) = length (weights n) - 1"
proof -
  from assms have inv: "shape_inv n" and l: "layers n = int (length (arch n))"
    and two: "2 \<le> length (arch n)"
    by (simp_all add: well_formed_def)
  from inv have len: "length (weights n) = length (arch n) - 1" by (simp add: shape_inv_def)
  show 3: "length (arch n) = Suc (length (weights n))" using len two by simp
  show "weights n \<noteq> []" using len two by auto
  show 4: "\<forall>j<length (weights n). int (nrows (weights n ! j)) = 1 + arch n ! j \<and>
                              int (ncols (weights n ! j)) = arch n ! Suc j"
    using inv by (simp add: shape_inv_def list_all_iff)
  show "chain (weights n)" unfolding chain_def
  proof (intro allI impI)
    fix j assume j: "Suc j < length (weights n)"
    then have "int (nrows (weights n ! Suc j)) = 1 + arch n ! Suc j"
      "int (ncols (weights n ! j)) = arch n ! Suc j" using 4 by simp_all
    then show "nrows (weights n ! Suc j) = Suc (ncols (weights n ! j))" by simp
  qed
  show "nat (layers n - 2) = length (weights n) - 1" using l 3 by simp
qed

lemma trace_ok_fits:
  assumes "well_formed n" "trace_ok n y"
  shows "fits (weights n) y"
proof -
  let ?W = "weights n"
  note wf = well_formed_chain[OF assms(1)]
  from assms(2) have len: "length y = length (arch n)" and
    el: "\<forall>i<length y. int (length (y ! i)) = arch n ! i + (if Suc i < length (arch n) then 1 else 0)"
    by (simp_all add: trace_ok_def list_all_iff)
  have 1: "length y = Suc (length ?W)" using len wf(3) by simp
  have 2: "\<forall>j<length ?W. length (y ! j) = nrows (?W ! j)"
  proof (intro allI impI)
    fix j assume j: "j < length ?W"
    then have "int (length (y ! j)) = arch n ! j + 1" using el 1 len by simp
    moreover have "int (nrows (?W ! j)) = 1 + arch n ! j" using wf(4) j by simp
    ultimately show "length (y ! j) = nrows (?W ! j)" by simp
  qed
  have "last y = y ! length ?W" using 1 by (metis diff_Suc_1 last_conv_nth length_0_conv nat.distinct(1))
  moreover have "int (length (y ! length ?W)) = arch n ! length ?W" using el 1 len by simp
  moreover have "last ?W = ?W ! (length ?W - 1)" using wf(2) by (simp add: last_conv_nth)
  moreover have "int (ncols (?W ! (length ?W - 1))) = arch n ! length ?W"
  proof -
    have "length ?W - 1 < length ?W" "Suc (length ?W - 1) = length ?W"
      using wf(2) by (cases ?W; simp)+
    then show ?thesis using wf(4) by metis
  qed
  ultimately have "length (last y) = ncols (last ?W)" by simp
  then show ?thesis using 1 2 by (simp add: fits_def)
qed

lemma back_prop_ok:
  assumes "well_formed n" "fits (weights n) y" "target_ok (int (ncols (last (weights n)))) t"
  shows "snd (back_prop n y t lr) = None"
proof -
  let ?W = "weights n"
  let ?i = "length ?W - 1"
  note wf = well_formed_chain[OF assms(1)]
  from assms(2) have len: "length y = Suc (length ?W)" and
    el: "\<forall>j<length ?W. length (y ! j) = nrows (?W ! j)" and
    la: "length (last y) = ncols (last ?W)"
    by (simp_all add: fits_def)
  have ne: "y \<noteq> []" using len by auto
  have lW: "last ?W = ?W ! ?i" using wf(2) by (simp add: last_conv_nth)
  from output_delta_ok[OF ne] assms(3) la obtain d where
    d: "output_delta y t = Inr d" "length d = ncols (?W ! ?i)"
    using lW by auto
  have i: "?i < length ?W" using wf(2) by (cases ?W) simp_all
  have ys: "\<forall>j. 0 < j \<and> j \<le> ?i \<longrightarrow> j < length y \<and> length (y ! j) = nrows (?W ! j)"
    using el len i by auto
  from hidden_deltas_ok[OF wf(1) i ys, of "[d]"] d(2) obtain dv' where
    h: "hidden_deltas ?W y ?i [d] = Inr ([d] @ dv')" "length dv' = ?i"
    "\<forall>k<?i. length (dv' ! k) = ncols (?W ! (?i - Suc k))"
    by auto
  have dl: "\<forall>j<length ?W. j < length (rev (d # dv')) \<and> length (rev (d # dv') ! j) = ncols (?W ! j)"
  proof (intro allI impI conjI)
    fix j assume j: "j < length ?W"
    then show "j < length (rev (d # dv'))" using h(2) by simp
    have "j \<le> ?i" using j by simp
    from rev_deltas_length[OF h(2,3) d(2) this] show "length (rev (d # dv') ! j) = ncols (?W ! j)" .
  qed
  have yl: "\<forall>j<length ?W. j < length y \<and> length (y ! j) = nrows (?W ! j)" using el len by simp
  have u: "snd (update_loop (arch n) y (rev (d # dv')) lr 0 (length ?W) ?W) = None"
    by (rule update_loop_ok[OF wf(3) wf(4) yl dl]) simp_all
  have "err_bind (output_delta y t) (\<lambda>d. hidden_deltas ?W y (nat (layers n - 2)) [d]) = Inr (d # dv')"
    using d(1) h(1) wf(5) by (simp add: err_bind_def)
  then show ?thesis using u by (auto simp: back_prop_def split: prod.splits)
qed

lemma well_formed_last:
  assumes "well_formed n"
  shows "int (ncols (last (weights n))) = last (arch n)" "int (nrows (weights n ! 0)) = 1 + hd (arch n)"
    "0 < last (arch n)"
proof -
  let ?W = "weights n"
  note wf = well_formed_chain[OF assms]
  have i: "length ?W - 1 < length ?W" "Suc (length ?W - 1) = length ?W" "0 < length ?W"
    using wf(2) by (cases ?W; simp)+
  have "last ?W = ?W ! (length ?W - 1)" using wf(2) by (simp add: last_conv_nth)
  moreover have "int (ncols (?W ! (length ?W - 1))) = arch n ! length ?W"
    using i wf(4) by metis
  moreover have ne: "arch n \<noteq> []" using wf(3) by auto
  then have "last (arch n) = arch n ! length ?W" using wf(3) by (simp add: last_conv_nth)
  ultimately show "int (ncols (last ?W)) = last (arch n)" by simp
  have "arch n ! 0 = hd (arch n)" using ne by (simp add: hd_conv_nth)
  then show "int (nrows (?W ! 0)) = 1 + hd (arch n)" using wf(4) i(3) by auto
  have "list_all (\<lambda>a. 0 < a) (arch n)" using assms by (simp add: well_formed_def)
  then show "0 < last (arch n)" using ne by (simp add: list_all_iff)
qed

lemma back_prop_mismatch:
  assumes "well_formed n" "fits (weights n) y" "length t \<noteq> ncols (last (weights n))" "length t \<noteq> 1"
  shows "back_prop n y (Vector t) lr = (n, Some ValueError)"
proof -
  let ?W = "weights n"
  let ?i = "length ?W - 1"
  note wf = well_formed_chain[OF assms(1)]
  from assms(2) have len: "length y = Suc (length ?W)" and
    el: "\<forall>j<length ?W. length (y ! j) = nrows (?W ! j)" and
    la: "length (last y) = ncols (last ?W)"
    by (simp_all add: fits_def)
  have ne: "y \<noteq> []" using len by auto
  have lW: "last ?W = ?W ! ?i" using wf(2) by (simp add: last_conv_nth)
  have i: "?i < length ?W" using wf(2) by (cases ?W) simp_all
  show ?thesis
  proof (cases "ncols (last ?W) = 1")
    case False
    then have "target_minus (Vector t) (last y) = Inl ValueError"
      using assms(3,4) la by (simp add: bcast_def)
    then have "output_delta y (Vector t) = Inl ValueError"
      using ne by (simp add: output_delta_def last_err_def err_bind_def)
    then show ?thesis by (simp add: back_prop_def err_bind_def)
  next
    case True
    then have l1: "length (last y) = 1" using la by simp
    then obtain err where e: "target_minus (Vector t) (last y) = Inr err" "length err = length t"
      using assms(4) by (auto simp: bcast_def)
    then obtain d where b: "bcast (\<lambda>a b. a * b) err (map tanh_derivative (last y)) = Inr d"
      "length d = length t"
      using l1 assms(4) by (auto simp: bcast_def)
    have d: "output_delta y (Vector t) = Inr d"
      using ne e(1) b(1) by (simp add: output_delta_def last_err_def err_bind_def)
    show ?thesis
    proof (cases ?i)
      case 0
      then have one: "length ?W = 1" using i wf(2) by (cases ?W) simp_all
      have r1: "reshape_row (y ! 0) (arch n ! 0 + 1) = Inr (y ! 0)"
        using el wf(4) one by (intro reshape_row_ok) simp
      have "arch n ! Suc 0 = 1" using wf(4) one True lW 0 by simp
      then have r2: "reshape_row d (arch n ! Suc 0) = Inl ValueError"
        using b(2) assms(4) by (simp add: reshape_row_def)
      have "updated_matrix (arch n) y [d] lr ?W 0 = Inl ValueError"
        using len one wf(3) r1 r2 by (simp add: updated_matrix_def err_bind_def nth_err_def)
      then have "update_loop (arch n) y [d] lr 0 (length ?W) ?W = (?W, Some ValueError)"
        using one by simp
      then show ?thesis using d 0 wf(5) by (simp add: back_prop_def err_bind_def)
    next
      case (Suc k)
      have "length (last [d]) \<noteq> nrows (transpose_mat (drop_first (?W ! Suc k)))"
        using b(2) assms(4) True lW Suc by simp
      then have "dot (last [d]) (transpose_mat (drop_first (?W ! Suc k))) = Inl ValueError"
        by (simp add: dot_Inl)
      then have "hidden_deltas ?W y (Suc k) [d] = Inl ValueError"
        using i Suc by (simp add: err_bind_def last_err_def nth_err_def)
      then show ?thesis using d Suc wf(5) by (simp add: back_prop_def err_bind_def)
    qed
  qed
qed

lemma back_prop_well_formed:
  assumes "well_formed n"
  shows "well_formed (fst (back_prop n y t lr))" "arch (fst (back_prop n y t lr)) = arch n"
  using assms back_prop_frame[of n y t lr] back_prop_shape_inv[of n y t lr]
  by (simp_all add: well_formed_def)

lemma fit_step_ok:
  assumes "well_formed n" "0 < nrows X" "r mod nrows X < length (rows Z)"
    "r mod nrows X < length labels"
    "\<forall>z\<in>set (rows Z). int (length z) = 1 + hd (arch n)"
    "\<forall>t\<in>set labels. target_ok (last (arch n)) t"
  shows "\<exists>n'. fit_step X r Z labels lr (n, c) = ((n', Suc c), None) \<and> well_formed n' \<and> arch n' = arch n"
proof -
  let ?s = "r mod nrows X"
  have s: "randint r (nrows X) = Inr ?s" using assms(2) by (simp add: randint_def)
  note wf = well_formed_chain[OF assms(1)]
  note wl = well_formed_last[OF assms(1)]
  have "rows Z ! ?s \<in> set (rows Z)" using assms(3) by simp
  then have "int (length (rows Z ! ?s)) = 1 + hd (arch n)" using assms(5) by blast
  then have "length (rows Z ! ?s) = nrows (weights n ! 0)" using wl(2) by simp
  from forward_list_ok[OF wf(1,2) this] obtain y where
    y: "forward_list n [rows Z ! ?s] = (y, None)" "fits (weights n) y" by blast
  have "labels ! ?s \<in> set labels" using assms(4) by simp
  then have "target_ok (int (ncols (last (weights n)))) (labels ! ?s)"
    using assms(6) wl(1) by simp
  from back_prop_ok[OF assms(1) y(2) this] have b: "snd (back_prop n y (labels ! ?s) lr) = None" .
  obtain n' where n': "back_prop n y (labels ! ?s) lr = (n', None)"
    using b by (cases "back_prop n y (labels ! ?s) lr") simp
  have "fit_step X r Z labels lr (n, c) = ((n', Suc c), None)"
    using s assms(3,4) y(1) n' by (simp add: nth_err_def)
  moreover have "well_formed n'" "arch n' = arch n"
    using back_prop_well_formed[OF assms(1), of y "labels ! ?s" lr] n' by simp_all
  ultimately show ?thesis by blast
qed

lemma fit_loop_ok:
  assumes "0 < nrows X"
    "\<forall>z\<in>set (rows Z). int (length z) = 1 + hd a"
    "\<forall>t\<in>set labels. target_ok (last a) t"
  shows "well_formed n \<Longrightarrow> arch n = a \<Longrightarrow>
         \<forall>j. k \<le> j \<and> j < k + m \<longrightarrow>
             idx j mod nrows X < length (rows Z) \<and> idx j mod nrows X < length labels \<Longrightarrow>
         \<exists>n'. fit_loop X idx Z labels lr k m (n, c) = ((n', c + m), None) \<and> well_formed n'"
proof (induction m arbitrary: k n c)
  case 0
  then show ?case by simp
next
  case (Suc m)
  have "idx k mod nrows X < length (rows Z)" "idx k mod nrows X < length labels"
    using Suc.prems(3) by simp_all
  then have "\<exists>n'. fit_step X (idx k) Z labels lr (n, c) = ((n', Suc c), None) \<and> well_formed n' \<and>
          arch n' = arch n"
    using Suc.prems(1,2) assms by (intro fit_step_ok) simp_all
  then obtain n' where
    st: "fit_step X (idx k) Z labels lr (n, c) = ((n', Suc c), None)" "well_formed n'" "arch n' = a"
    using Suc.prems(2) by auto
  have "\<forall>j. Suc k \<le> j \<and> j < Suc k + m \<longrightarrow>
             idx j mod nrows X < length (rows Z) \<and> idx j mod nrows X < length labels"
    using Suc.prems(3) by simp
  from Suc.IH[OF st(2,3) this, of "Suc c"] show ?case using st(1) by simp
qed

lemma fit_step_count:
  "fit_step X r Z labels lr s = (s', res) \<Longrightarrow>
   snd s' \<le> Suc (snd s) \<and> (res = None \<longrightarrow> snd s' = Suc (snd s))"
  by (cases s) (auto split: sum.splits prod.splits option.splits)

lemma fit_loop_count:
  "fit_loop X idx Z labels lr k m s = (s', res) \<Longrightarrow>
   snd s' \<le> snd s + m \<and> (res = None \<longrightarrow> snd s' = snd s + m)"
proof (induction m arbitrary: k s)
  case 0
  then show ?case by simp
next
  case (Suc m)
  obtain s1 r1 where st: "fit_step X (idx k) Z labels lr s = (s1, r1)"
    by (cases "fit_step X (idx k) Z labels lr s")
  note c = fit_step_count[OF st]
  show ?case
  proof (cases r1)
    case None
    then have "fit_loop X idx Z labels lr (Suc k) m s1 = (s', res)" using Suc.prems st by simp
    from Suc.IH[OF this] c None show ?thesis by auto
  next
    case (Some e)
    then show ?thesis using Suc.prems st c by auto
  qed
qed

section \<open>The output-layer gradient\<close>

lemma tanh_derivative_eq: "tanh_derivative x = 1 - tanh x ^ 2"
proof -
  have c: "cosh x ^ 2 \<noteq> 0" by simp
  have "cosh x ^ 2 - sinh x ^ 2 = 1" by (rule hyperbolic_pythagoras)
  then have "(cosh x ^ 2 - sinh x ^ 2) / cosh x ^ 2 = 1 / cosh x ^ 2" by simp
  then have "1 - sinh x ^ 2 / cosh x ^ 2 = 1 / cosh x ^ 2"
    using c by (simp add: diff_divide_distrib)
  then show ?thesis by (simp add: tanh_derivative_def tanh_def power_divide)
qed

lemma tanh_less_self:
  assumes "0 < (x::real)"
  shows "tanh x < x"
proof -
  let ?f = "\<lambda>t::real. t - tanh t"
  have d: "(?f has_real_derivative tanh t ^ 2) (at t)" for t
    by (auto intro!: derivative_eq_intros)
  have "?f 0 \<le> ?f (x / 2)"
  proof (rule DERIV_nonneg_imp_nondecreasing[of 0 "x / 2" ?f])
    show "0 \<le> x / 2" using assms by simp
  next
    fix t :: real
    show "\<exists>y. (?f has_real_derivative y) (at t) \<and> 0 \<le> y"
      using d[of t] by (intro exI[of _ "tanh t ^ 2"]) simp
  qed
  moreover have "?f (x / 2) < ?f x"
  proof (rule DERIV_pos_imp_increasing[of "x / 2" x ?f])
    show "x / 2 < x" using assms by simp
  next
    fix t :: real
    assume "x / 2 \<le> t"
    then have "0 < t" using assms by simp
    then have "0 < tanh t ^ 2" by simp
    then show "\<exists>y. (?f has_real_derivative y) (at t) \<and> 0 < y" using d[of t] by blast
  qed
  ultimately show ?thesis by simp
qed

lemma tanh_derivative_gt:
  assumes "x \<noteq> 0"
  shows "1 - x ^ 2 < tanh_derivative x"
proof -
  have "0 < \<bar>x\<bar>" using assms by simp
  then have "tanh \<bar>x\<bar> < \<bar>x\<bar>" by (rule tanh_less_self)
  then have "\<bar>tanh x\<bar> < \<bar>x\<bar>" by simp
  then have "\<bar>tanh x\<bar> ^ 2 < \<bar>x\<bar> ^ 2" by (intro power_strict_mono) simp_all
  then have "tanh x ^ 2 < x ^ 2" by simp
  then show ?thesis by (simp add: tanh_derivative_eq)
qed

lemma map_zip_twice:
  "length t = length out \<Longrightarrow>
   map (\<lambda>(x, y). f x y) (zip (map (\<lambda>(x, y). g x y) (zip t out)) (map h out)) =
   map (\<lambda>(a, b). f (g a b) (h b)) (zip t out)"
  by (induction t out rule: list_induct2) auto

lemma output_delta_Vector:
  assumes "y \<noteq> []" "length t = length (last y)"
  shows "output_delta y (Vector t) =
           Inr (map (\<lambda>(target, out). (target - out) * tanh_derivative out) (zip t (last y)))"
  using assms map_zip_twice[OF assms(2), of "\<lambda>a b. a * b" "\<lambda>a b. a - b" tanh_derivative]
  by (simp add: output_delta_def last_err_def err_bind_def bcast_def)

text \<open>
  C1. The claim: the output-layer error is \<open>target - output\<close> and the gradient signal is
  \<open>error * (1 - output\<^sup>2)\<close>, the derivative routine applied to the post-activation
  value being \<open>1 - output\<^sup>2\<close>. The error is as claimed (\<open>output_delta_Vector\<close>). The
  derivative routine is \<open>1 / cosh x ^ 2\<close>, which is \<open>1 - (tanh x)\<^sup>2\<close>, and \<open>_back_prop\<close>
  hands it the output \<open>tanh x\<close> where it wants \<open>x\<close>: the factor is
  \<open>1 - (tanh output)\<^sup>2\<close>, larger than \<open>1 - output\<^sup>2\<close> at every output but \<open>0\<close>
  (\<open>tanh_derivative_gt\<close>). For the output \<open>[0.5]\<close> and the target \<open>[1.]\<close> the code's
  gradient signal is \<open>0.5 / cosh(0.5)\<^sup>2\<close>, above the claimed \<open>0.5 * 0.75\<close>.
\<close>

theorem output_delta_post_activation:
  "output_delta [[1, 0], [1 / 2]] (Vector [1]) = Inr [(1 - 1 / 2) * tanh_derivative (1 / 2)] \<and>
   (1 - 1 / 2) * (1 - (1 / 2)\<^sup>2) < (1 - 1 / 2) * tanh_derivative (1 / 2)"
proof -
  have "1 - (1 / 2)\<^sup>2 < tanh_derivative (1 / 2)" by (rule tanh_derivative_gt) simp
  then show ?thesis
    by (simp add: output_delta_def last_err_def err_bind_def bcast_def)
qed

section \<open>Targets of the wrong length\<close>

lemma well_formed_net_221: "well_formed net_221"
  by (simp add: well_formed_def shape_inv_def net_221_def nrows_def wf_mat_def upt_rec)

lemma construct_net_12:
  "unit_draws half_draws \<and> construct machine_alloc half_draws [1, 2] = Inr net_12"
  by (simp add: construct_def rand_def machine_alloc_def half_draws_def unit_draws_def map_mat_def
      net_12_def upt_rec)

lemma well_formed_net_12: "well_formed net_12"
  by (simp add: well_formed_def shape_inv_def net_12_def nrows_def wf_mat_def upt_rec)

lemma forward_net_12: "forward_list net_12 [[1, 0]] = ([[1, 0], [0, tanh (1 / 2)]], None)"
  by (simp add: forward_list_def net_12_def err_bind_def last_err_def dot_def nrows_def upt_rec)

text \<open>
  C3 (amended). \<open>_back_prop\<close> checks no length; what decides is NumPy broadcasting. For a
  well-formed network, a trace of it and a target vector whose length differs from the
  output layer's: when the target has a length other than one, \<open>_back_prop\<close> raises
  \<open>ValueError\<close> (NumPy's shape error, the only kind raised here) before any weight is
  written; when the target has length one it is stretched over the output and
  \<open>_back_prop\<close> completes.
\<close>

theorem back_prop_target_mismatch:
  assumes "well_formed n" "trace_ok n y" "int (length t) \<noteq> last (arch n)"
  shows "(length t \<noteq> 1 \<longrightarrow> back_prop n y (Vector t) learning_rate = (n, Some ValueError)) \<and>
         (length t = 1 \<longrightarrow> snd (back_prop n y (Vector t) learning_rate) = None)"
proof -
  note f = trace_ok_fits[OF assms(1,2)]
  note wl = well_formed_last[OF assms(1)]
  have "length t \<noteq> ncols (last (weights n))" using assms(3) wl(1) by auto
  from back_prop_mismatch[OF assms(1) f this]
  have 1: "length t \<noteq> 1 \<longrightarrow> back_prop n y (Vector t) learning_rate = (n, Some ValueError)" by simp
  have "length t = 1 \<Longrightarrow> target_ok (int (ncols (last (weights n)))) (Vector t)" by simp
  from back_prop_ok[OF assms(1) f this]
  have 2: "length t = 1 \<longrightarrow> snd (back_prop n y (Vector t) learning_rate) = None" by simp
  show ?thesis using 1 2 by simp
qed

theorem back_prop_target_mismatch_witness:
  "back_prop net_221 [[1, 0, 0], [1, 0, 0], [0]] (Vector [0, 1]) (1 / 10) = (net_221, Some ValueError) \<and>
   snd (back_prop net_12 [[1, 0], [0, tanh (1 / 2)]] (Vector [1]) (1 / 10)) = None"
proof -
  have t1: "trace_ok net_221 [[1, 0, 0], [1, 0, 0], [0]]"
    by (simp add: trace_ok_def net_221_def upt_rec)
  have t2: "trace_ok net_12 [[1, 0], [0, tanh (1 / 2)]]"
    by (simp add: trace_ok_def net_12_def upt_rec)
  have a1: "int (length [0, 1 :: real]) \<noteq> last (arch net_221)" by (simp add: net_221_def)
  have a2: "int (length [1 :: real]) \<noteq> last (arch net_12)" by (simp add: net_12_def)
  show ?thesis
    using back_prop_target_mismatch[OF well_formed_net_221 t1 a1, of "1 / 10"]
      back_prop_target_mismatch[OF well_formed_net_12 t2 a2, of "1 / 10"]
    by simp
qed

text \<open>
  A target of one entry against the two outputs of \<open>net_12\<close>, on the trace \<open>_forward_prop\<close>
  returns for the input \<open>[0.]\<close>: no exception.
\<close>

theorem back_prop_broadcast_counterexample:
  "forward_list net_12 [[1, 0]] = ([[1, 0], [0, tanh (1 / 2)]], None) \<and>
   snd (back_prop net_12 [[1, 0], [0, tanh (1 / 2)]] (Vector [1]) (1 / 10)) = None"
proof -
  have t2: "trace_ok net_12 [[1, 0], [0, tanh (1 / 2)]]"
    by (simp add: trace_ok_def net_12_def upt_rec)
  have "fits (weights net_12) [[1, 0], [0, tanh (1 / 2)]]"
    using well_formed_net_12 t2 by (rule trace_ok_fits)
  moreover have "target_ok (int (ncols (last (weights net_12)))) (Vector [1])" by simp
  ultimately have "snd (back_prop net_12 [[1, 0], [0, tanh (1 / 2)]] (Vector [1]) (1 / 10)) = None"
    using well_formed_net_12 by (intro back_prop_ok)
  then show ?thesis using forward_net_12 by simp
qed

section \<open>Training\<close>

text \<open>
  C4. The claim: the index of each iteration is drawn from \<open>0 .. len(samples) - 1\<close>. The
  code draws \<open>np.random.randint(X.shape[0])\<close> from the global \<open>X\<close> of the notebook, not
  from its argument \<open>data\<close>. With the four-row \<open>X\<close>, a training set of two samples and a
  draw of \<open>3\<close>, \<open>Z[3]\<close> raises \<open>IndexError\<close> in the first iteration, before any call of
  \<open>_back_prop\<close>.
\<close>

theorem fit_index_from_global:
  "fit X_xor three_draws net_221 X_half y_half (1 / 10) 1 = ((net_221, 0), Some IndexError)"
  by (simp add: fit_def X_xor_def X_half_def three_draws_def randint_def nrows_def nth_err_def)

text \<open>
  \<open>fit\<close> never calls \<open>_back_prop\<close> more than \<open>epochs\<close> times, and whenever it returns
  normally it has called it exactly \<open>epochs\<close> times, once per iteration after one
  \<open>_forward_prop\<close>: the loop has no convergence check and no exit but an exception. It
  returns normally for a well-formed network, samples of the input layer's size and labels
  that broadcast against the output, provided every index drawn is an index of the
  training set.
\<close>

lemma fit_update_count:
  "snd (fst (fit X idx n data labels learning_rate epochs)) \<le> nat epochs \<and>
   (snd (fit X idx n data labels learning_rate epochs) = None \<longrightarrow>
      snd (fst (fit X idx n data labels learning_rate epochs)) = nat epochs) \<and>
   (well_formed n \<and> wf_mat data \<and> int (ncols data) = hd (arch n) \<and>
    list_all (target_ok (last (arch n))) labels \<and> 0 < nrows X \<and>
    list_all (\<lambda>k. idx k mod nrows X < nrows data \<and> idx k mod nrows X < length labels)
      [0..<nat epochs] \<longrightarrow>
      snd (fit X idx n data labels learning_rate epochs) = None)"
proof -
  let ?Z = "\<lparr>ncols = Suc (ncols data), rows = map (\<lambda>r. 1 # r) (rows data)\<rparr>"
  obtain s' res where f: "fit_loop X idx ?Z labels learning_rate 0 (nat epochs) (n, 0) = (s', res)"
    by (cases "fit_loop X idx ?Z labels learning_rate 0 (nat epochs) (n, 0)")
  from fit_loop_count[OF f] have 1:
    "snd (fst (fit X idx n data labels learning_rate epochs)) \<le> nat epochs"
    "snd (fit X idx n data labels learning_rate epochs) = None \<longrightarrow>
      snd (fst (fit X idx n data labels learning_rate epochs)) = nat epochs"
    using f by (simp_all add: fit_def)
  have 2: "snd (fit X idx n data labels learning_rate epochs) = None"
    if h: "well_formed n" "wf_mat data" "int (ncols data) = hd (arch n)"
      "list_all (target_ok (last (arch n))) labels" "0 < nrows X"
      "list_all (\<lambda>k. idx k mod nrows X < nrows data \<and> idx k mod nrows X < length labels)
         [0..<nat epochs]"
  proof -
    have a: "\<forall>j. 0 \<le> j \<and> j < 0 + nat epochs \<longrightarrow>
        idx j mod nrows X < length (rows ?Z) \<and> idx j mod nrows X < length labels"
      using h(6) by (simp add: nrows_def list_all_iff)
    have b: "\<forall>z\<in>set (rows ?Z). int (length z) = 1 + hd (arch n)"
      using h(2,3) by (auto simp: wf_mat_def list_all_iff)
    have c: "\<forall>t\<in>set labels. target_ok (last (arch n)) t" using h(4) by (simp add: list_all_iff)
    from fit_loop_ok[OF h(5) b c h(1) refl a, of learning_rate 0]
    show ?thesis by (auto simp: fit_def)
  qed
  show ?thesis using 1 2 by blast
qed

lemma fit_update_count_xor:
  "snd (fit X_xor count_draws net_221 X_xor y_xor (1 / 10) 3) = None \<and>
   snd (fst (fit X_xor count_draws net_221 X_xor y_xor (1 / 10) 3)) = 3"
proof -
  have "wf_mat X_xor \<and> int (ncols X_xor) = hd (arch net_221) \<and>
    list_all (target_ok (last (arch net_221))) y_xor \<and> 0 < nrows X_xor \<and>
    list_all (\<lambda>k. count_draws k mod nrows X_xor < nrows X_xor \<and>
                   count_draws k mod nrows X_xor < length y_xor) [0..<nat 3]"
    by (simp add: X_xor_def y_xor_def net_221_def nrows_def wf_mat_def count_draws_def list_all_iff)
  with well_formed_net_221
  have r: "snd (fit X_xor count_draws net_221 X_xor y_xor (1 / 10) 3) = None"
    using fit_update_count[of X_xor count_draws net_221 X_xor y_xor "1 / 10" 3] by blast
  then have "snd (fst (fit X_xor count_draws net_221 X_xor y_xor (1 / 10) 3)) = nat 3"
    using fit_update_count[of X_xor count_draws net_221 X_xor y_xor "1 / 10" 3] by blast
  then show ?thesis using r by simp
qed

lemma fit_step_index_error:
  assumes "0 < nrows X" "length (rows Z) \<le> r mod nrows X"
  shows "fit_step X r Z labels lr (n, c) = ((n, c), Some IndexError)"
  using assms by (simp add: randint_def nth_err_def)

text \<open>
  C9. The claim: for every training set \<open>fit\<close> performs exactly \<open>epochs\<close> weight updates.
  The loop has indeed no convergence check, but the index it draws ranges over the rows of
  the global \<open>X\<close> (the defect of C4), and an index beyond the training set ends \<open>fit\<close> with
  \<open>IndexError\<close>. With the four-row \<open>X\<close>, the first two samples as training set, four epochs
  and the draws \<open>0, 1, 2, 3\<close>, \<open>fit\<close> stops in the third iteration after two updates.
\<close>

theorem fit_stops_short:
  "snd (fit X_xor count_draws net_221 X_half y_half (1 / 10) 4) = Some IndexError \<and>
   snd (fst (fit X_xor count_draws net_221 X_half y_half (1 / 10) 4)) = 2"
proof -
  let ?Z = "\<lparr>ncols = Suc (ncols X_half), rows = map (\<lambda>r. 1 # r) (rows X_half)\<rparr>"
  have x: "0 < nrows X_xor" "nrows X_xor = 4" by (simp_all add: X_xor_def nrows_def)
  have z: "length (rows ?Z) = 2" "\<forall>z\<in>set (rows ?Z). int (length z) = 1 + hd (arch net_221)"
    by (simp_all add: X_half_def net_221_def)
  have l: "length y_half = 2" "\<forall>t\<in>set y_half. target_ok (last (arch net_221)) t"
    by (simp_all add: y_half_def)
  have "\<exists>n'. fit_step X_xor (count_draws 0) ?Z y_half (1 / 10) (net_221, 0) = ((n', Suc 0), None) \<and>
          well_formed n' \<and> arch n' = arch net_221"
    using well_formed_net_221 x z l by (intro fit_step_ok) (simp_all add: count_draws_def)
  then obtain n1 where
    s1: "fit_step X_xor (count_draws 0) ?Z y_half (1 / 10) (net_221, 0) = ((n1, Suc 0), None)"
    and w1: "well_formed n1" "arch n1 = arch net_221"
    by blast
  have "\<exists>n'. fit_step X_xor (count_draws (Suc 0)) ?Z y_half (1 / 10) (n1, Suc 0) =
            ((n', Suc (Suc 0)), None) \<and> well_formed n' \<and> arch n' = arch n1"
    using w1 x z l by (intro fit_step_ok) (simp_all add: count_draws_def)
  then obtain n2 where
    s2: "fit_step X_xor (count_draws (Suc 0)) ?Z y_half (1 / 10) (n1, Suc 0) =
           ((n2, Suc (Suc 0)), None)"
    by blast
  have s3: "fit_step X_xor (count_draws (Suc (Suc 0))) ?Z y_half (1 / 10) (n2, Suc (Suc 0)) =
           ((n2, Suc (Suc 0)), Some IndexError)"
    using x z(1) by (intro fit_step_index_error) (simp_all add: count_draws_def)
  have e4: "nat 4 = Suc (Suc (Suc (Suc 0)))" by simp
  have "fit_loop X_xor count_draws ?Z y_half (1 / 10) 0 (Suc (Suc (Suc (Suc 0)))) (net_221, 0) =
      ((n2, Suc (Suc 0)), Some IndexError)"
    by (simp add: s1 s2 s3 del: fit_step.simps)
  then have "fit X_xor count_draws net_221 X_half y_half (1 / 10) 4 =
      ((n2, Suc (Suc 0)), Some IndexError)"
    unfolding fit_def e4 .
  then show ?thesis by simp
qed


section \<open>The effects of forward propagation\<close>

lemma forward_loop_length:
  "forward_loop W i k y = (y', None) \<Longrightarrow> length y' = length y + k"
proof (induction k arbitrary: i y)
  case 0
  then show ?case by simp
next
  case (Suc k)
  show ?case
  proof (cases "err_bind (nth_err y i) (\<lambda>yi. err_bind (nth_err W i) (\<lambda>w. dot yi w))")
    case (Inl e)
    then show ?thesis using Suc.prems by simp
  next
    case (Inr a)
    then have "forward_loop W (Suc i) k (y @ [1 # map tanh a]) = (y', None)" using Suc.prems by simp
    from Suc.IH[OF this] show ?thesis by simp
  qed
qed

lemma forward_list_length:
  assumes "forward_list n y = (y', None)"
  shows "length y' = length y + length (weights n)"
proof -
  obtain y1 r where f: "forward_loop (weights n) 0 (length (weights n) - 1) y = (y1, r)"
    by (cases "forward_loop (weights n) 0 (length (weights n) - 1) y")
  show ?thesis
  proof (cases r)
    case (Some e)
    then show ?thesis using assms f by (simp add: forward_list_def)
  next
    case None
    then have l: "length y1 = length y + (length (weights n) - 1)"
      using f forward_loop_length by blast
    from assms f None obtain a where
      "err_bind (last_err y1) (\<lambda>yl. err_bind (last_err (weights n)) (\<lambda>wl. dot yl wl)) = Inr a"
      "y' = y1 @ [map tanh a]"
      by (auto simp: forward_list_def split: sum.splits)
    then have "weights n \<noteq> []" "y' = y1 @ [map tanh a]"
      by (auto simp: err_bind_Inr last_err_def split: if_splits)
    then show ?thesis using l by (cases "weights n") simp_all
  qed
qed

text \<open>
  C8 (amended). \<open>_forward_prop\<close> is a function of the weights and of the list it is given
  (it consults no generator) and writes to no weight matrix, but it does write to its
  argument: \<open>y = x\<close> names the caller's list, every layer's activation is appended to that
  list, and the list returned is the caller's. The entries the list held before, the input
  vector among them, stay as they were, and no other list changes; on normal return the
  list has grown by one entry per weight matrix.
\<close>

theorem forward_prop_effects:
  "self (fst (forward_prop s x)) = self s \<and>
   (\<forall>r. r \<noteq> x \<longrightarrow> heap (fst (forward_prop s x)) r = heap s r) \<and>
   take (length (heap s x)) (heap (fst (forward_prop s x)) x) = heap s x \<and>
   (\<forall>r. snd (forward_prop s x) = Inr r \<longrightarrow>
      r = x \<and> length (heap (fst (forward_prop s x)) x) = length (heap s x) + length (weights (self s)))"
proof -
  obtain y r where f: "forward_list (self s) (heap s x) = (y, r)"
    by (cases "forward_list (self s) (heap s x)")
  from forward_list_append[OF f] obtain ys where ys: "y = heap s x @ ys" by blast
  have "r = None \<Longrightarrow> length y = length (heap s x) + length (weights (self s))"
    using f forward_list_length by blast
  then show ?thesis using f ys by (cases r) (simp_all add: forward_prop_def)
qed

lemma forward_prop_world_0:
  "forward_prop world_0 0 = (world_0\<lparr>heap := heap_0(0 := [[1, 0], [0, tanh (1 / 2)]])\<rparr>, Inr 0)"
  using forward_net_12 by (simp add: forward_prop_def world_0_def heap_0_def)

theorem forward_prop_effects_witness:
  "self (fst (forward_prop world_0 0)) = net_12 \<and>
   heap (fst (forward_prop world_0 0)) 1 = [] \<and>
   take 1 (heap (fst (forward_prop world_0 0)) 0) = [[1, 0]] \<and>
   length (heap (fst (forward_prop world_0 0)) 0) = 2"
proof -
  have "snd (forward_prop world_0 0) = Inr 0" by (simp add: forward_prop_world_0)
  moreover have "heap world_0 0 = [[1, 0]]" "heap world_0 1 = []" "self world_0 = net_12"
    "length (weights net_12) = 1"
    by (simp_all add: world_0_def heap_0_def net_12_def)
  ultimately show ?thesis using forward_prop_effects[of world_0 0] by simp
qed

text \<open>
  The caller's list \<open>[array([1., 0.])]\<close> holds two entries after the call on \<open>net_12\<close>.
\<close>

theorem forward_prop_appends_counterexample:
  "heap world_0 0 = [[1, 0]] \<and>
   snd (forward_prop world_0 0) = Inr 0 \<and>
   heap (fst (forward_prop world_0 0)) 0 = [[1, 0], [0, tanh (1 / 2)]]"
  by (simp add: forward_prop_world_0) (simp add: world_0_def heap_0_def)

section \<open>Prediction\<close>

lemma predict_single_data_ok:
  assumes "well_formed n" "int (length x) = hd (arch n)"
  shows "\<exists>y. forward_list n [1 # x] = (y, None) \<and> fits (weights n) y \<and>
             predict_loop (weights n) (1 # x) = Inr (1 # last y) \<and>
             predict_single_data n x = Inr (last y ! 0)"
proof -
  note wf = well_formed_chain[OF assms(1)]
  note wl = well_formed_last[OF assms(1)]
  have "length (1 # x) = nrows (weights n ! 0)" using assms(2) wl(2) by simp
  from forward_list_ok[OF wf(1,2) this] obtain y where
    y: "forward_list n [1 # x] = (y, None)" "fits (weights n) y" by blast
  have "int (length (last y)) = last (arch n)" using y(2) wl(1) by (simp add: fits_def)
  then have "0 < int (length (last y))" using wl(3) by simp
  then have "0 < length (last y)" by linarith
  then have "predict_single_data n x = Inr (last y ! 0)"
    using predict_single_data_forward[OF wf(2), of x] y(1) by (simp add: nth_err_def)
  moreover have "predict_loop (weights n) (1 # x) = Inr (1 # last y)"
    using predict_loop_forward_list[OF wf(2), of "1 # x"] y(1) by simp
  ultimately show ?thesis using y by blast
qed

text \<open>
  C5 (amended). For a well-formed network and an input of the first layer's size,
  \<open>predict_single_data\<close> returns one scalar: the first of the final layer's \<open>arch[last]\<close>
  activation values, as the last entry of the trace of \<open>_forward_prop\<close> has it. That is the
  whole final activation exactly when the final layer has one neuron.
\<close>

theorem predict_single_data_first_output:
  assumes "well_formed n" "int (length x) = hd (arch n)"
  shows "\<exists>y. forward_list n [1 # x] = (y, None) \<and> int (length (last y)) = last (arch n) \<and>
             predict_single_data n x = Inr (last y ! 0) \<and>
             ([last y ! 0] = last y \<longleftrightarrow> last (arch n) = 1)"
proof -
  from predict_single_data_ok[OF assms] obtain y where
    y: "forward_list n [1 # x] = (y, None)" "fits (weights n) y"
    "predict_single_data n x = Inr (last y ! 0)" by blast
  have l: "int (length (last y)) = last (arch n)"
    using y(2) well_formed_last(1)[OF assms(1)] by (simp add: fits_def)
  have "[last y ! 0] = last y \<longleftrightarrow> length (last y) = 1"
    by (cases "last y") (auto simp: length_Suc_conv)
  then have "[last y ! 0] = last y \<longleftrightarrow> last (arch n) = 1" using l by auto
  then show ?thesis using y(1,3) l by blast
qed

theorem predict_single_data_first_output_witness:
  "\<exists>y. forward_list net_12 [[1, 0]] = (y, None) \<and> int (length (last y)) = 2 \<and>
       predict_single_data net_12 [0] = Inr (last y ! 0) \<and> [last y ! 0] \<noteq> last y"
proof -
  have "int (length [0 :: real]) = hd (arch net_12)" "last (arch net_12) = 2"
    by (simp_all add: net_12_def)
  then show ?thesis
    using predict_single_data_first_output[OF well_formed_net_12, of "[0]"] by auto
qed

text \<open>
  On \<open>net_12\<close> and the input \<open>[0.]\<close> the final activation is \<open>[0, tanh (1 / 2)]\<close>;
  \<open>predict_single_data\<close> returns \<open>0\<close> and the second output is lost.
\<close>

theorem predict_single_data_scalar_counterexample:
  "forward_list net_12 [[1, 0]] = ([[1, 0], [0, tanh (1 / 2)]], None) \<and>
   predict_single_data net_12 [0] = Inr 0 \<and> tanh (1 / 2) \<noteq> (0 :: real)"
  using forward_net_12
  by (simp add: predict_single_data_def net_12_def err_bind_def dot_def nrows_def nth_err_def upt_rec)

lemma predict_rows_ok:
  "\<forall>x\<in>set X. \<exists>v. predict_single_data n x = Inr v \<Longrightarrow> ncols Y = 1 \<Longrightarrow>
   predict_rows n X Y =
     Inr \<lparr>ncols = 1, rows = rows Y @ map (\<lambda>x. [projr (predict_single_data n x)]) X\<rparr>"
proof (induction X arbitrary: Y)
  case Nil
  then show ?case by simp
next
  case (Cons x X)
  then obtain v where v: "predict_single_data n x = Inr v" by auto
  let ?Y = "\<lparr>ncols = 1, rows = rows Y @ [[v]]\<rparr>"
  have "predict_rows n (x # X) Y = predict_rows n X ?Y"
    using v Cons.prems(2) by (simp add: err_bind_def vstack_def)
  moreover have "predict_rows n X ?Y =
     Inr \<lparr>ncols = 1, rows = rows ?Y @ map (\<lambda>x. [projr (predict_single_data n x)]) X\<rparr>"
    using Cons.prems(1) by (intro Cons.IH) simp_all
  ultimately show ?case using v by simp
qed

lemma predict_start:
  assumes "well_formed n"
  shows "predict n X = predict_rows n X \<lparr>ncols = nat (last (arch n)), rows = []\<rparr>"
proof -
  have "arch n \<noteq> []" using well_formed_chain(3)[OF assms] by auto
  then have "nth_int (arch n) (- 1) = Inr (last (arch n))"
    by (cases "arch n" rule: rev_cases) (simp_all add: nth_int_def)
  then show ?thesis
    using well_formed_last(3)[OF assms] by (simp add: predict_def err_bind_def empty_rows_def)
qed

text \<open>
  For a well-formed network and correctly sized inputs, the loop of \<open>predict_single_data\<close>
  ends with the final layer's activation behind a bias entry and the method returns the
  element at index 1, the first output neuron's value. \<open>predict\<close> stacks one such scalar
  per sample into an \<open>n\<close> by \<open>1\<close> array when the final layer has one neuron. When it has two
  or more, \<open>np.vstack\<close> of the \<open>0\<close> by \<open>arch[-1]\<close> array and the first \<open>1\<close> by \<open>1\<close> row raises
  \<open>ValueError\<close>.
\<close>

lemma predict_paths:
  assumes "well_formed n" "int (length x) = hd (arch n)"
    "list_all (\<lambda>x. int (length x) = hd (arch n)) X"
  shows "(\<exists>y. forward_list n [1 # x] = (y, None) \<and>
              predict_loop (weights n) (1 # x) = Inr (1 # last y) \<and>
              predict_single_data n x = Inr ((1 # last y) ! 1)) \<and>
         (last (arch n) = 1 \<longrightarrow>
            predict n X = Inr \<lparr>ncols = 1, rows = map (\<lambda>x. [projr (predict_single_data n x)]) X\<rparr>) \<and>
         (last (arch n) \<noteq> 1 \<longrightarrow>
            predict n X = (if X = [] then Inr \<lparr>ncols = nat (last (arch n)), rows = []\<rparr>
                           else Inl ValueError))"
proof -
  have 1: "\<exists>y. forward_list n [1 # x] = (y, None) \<and>
              predict_loop (weights n) (1 # x) = Inr (1 # last y) \<and>
              predict_single_data n x = Inr ((1 # last y) ! 1)"
    using predict_single_data_ok[OF assms(1,2)] by auto
  have ok: "\<forall>x\<in>set X. \<exists>v. predict_single_data n x = Inr v"
  proof
    fix z assume "z \<in> set X"
    then have "int (length z) = hd (arch n)" using assms(3) by (simp add: list_all_iff)
    from predict_single_data_ok[OF assms(1) this] show "\<exists>v. predict_single_data n z = Inr v"
      by blast
  qed
  have 2: "predict n X = Inr \<lparr>ncols = 1, rows = map (\<lambda>x. [projr (predict_single_data n x)]) X\<rparr>"
    if "last (arch n) = 1"
    using that predict_rows_ok[OF ok, of "\<lparr>ncols = nat (last (arch n)), rows = []\<rparr>"]
    by (simp add: predict_start[OF assms(1)])
  have 3: "predict n X = (if X = [] then Inr \<lparr>ncols = nat (last (arch n)), rows = []\<rparr>
                           else Inl ValueError)"
    if ne: "last (arch n) \<noteq> 1"
  proof (cases X)
    case Nil
    then show ?thesis by (simp add: predict_start[OF assms(1)])
  next
    case (Cons z Z)
    then obtain v where "predict_single_data n z = Inr v" using ok by auto
    moreover have "nat (last (arch n)) \<noteq> 1" using ne well_formed_last(3)[OF assms(1)] by simp
    ultimately show ?thesis
      using Cons by (simp add: predict_start[OF assms(1)] err_bind_def vstack_def)
  qed
  show ?thesis using 1 2 3 by blast
qed

lemma predict_paths_nets:
  "(\<exists>y. forward_list net_12 [[1, 0]] = (y, None) \<and>
        predict_loop (weights net_12) [1, 0] = Inr (1 # last y) \<and>
        predict_single_data net_12 [0] = Inr ((1 # last y) ! 1)) \<and>
   predict net_12 [[0]] = Inl ValueError \<and>
   predict net_221 [[0, 0], [0, 1]] =
     Inr \<lparr>ncols = 1, rows = [[projr (predict_single_data net_221 [0, 0])],
                               [projr (predict_single_data net_221 [0, 1])]]\<rparr>"
proof -
  have a: "int (length [0 :: real]) = hd (arch net_12)"
    "list_all (\<lambda>x. int (length x) = hd (arch net_12)) [[0 :: real]]" "last (arch net_12) \<noteq> 1"
    by (simp_all add: net_12_def)
  have b: "int (length [0, 0 :: real]) = hd (arch net_221)"
    "list_all (\<lambda>x. int (length x) = hd (arch net_221)) [[0, 0], [0, 1 :: real]]"
    "last (arch net_221) = 1"
    by (simp_all add: net_221_def)
  show ?thesis
    using predict_paths[OF well_formed_net_12 a(1,2)] a(3)
      predict_paths[OF well_formed_net_221 b(1,2)] b(3)
    by simp
qed

text \<open>
  C10. The claim: for a network whose final layer has two or more neurons, the
  single-sample path returns the element at index 1 of the bias-prefixed final activation,
  one scalar, and the batch \<open>predict\<close> stacks one such scalar per sample into an \<open>n\<close> by \<open>1\<close>
  array. The first half holds (\<open>predict_paths\<close>). The batch starts from
  \<open>np.array([]).reshape(0, self.arch[-1])\<close> and stacks \<open>1\<close> by \<open>1\<close> rows onto it, so for every
  such network \<open>np.vstack\<close> raises \<open>ValueError\<close> at the first sample. On \<open>net_12\<close>, whose
  final layer has two neurons, the sample \<open>[0.]\<close> gives the scalar \<open>0\<close> and the batch of that
  one sample raises.
\<close>

theorem predict_batch_raises:
  "predict_single_data net_12 [0] = Inr 0 \<and> predict net_12 [[0]] = Inl ValueError"
  by (simp add: predict_def predict_single_data_def net_12_def err_bind_def dot_def nrows_def
      nth_err_def nth_int_def empty_rows_def vstack_def upt_rec)

end
